theory Spec2Isabelle
  imports
    Complex_Main
    "HOL-Library.Word"
    "HOL-Library.Signed_Division"
    "HOL-Library.Char_ord"
    "HOL-Library.List_Lexorder"
    "HOL-Library.AList"
    "HOL-Library.Log_Nat"
begin

section \<open>Quote records and JSON values\<close>

text \<open>
  The gateway keeps one \<open>MarketDataStruct\<close> per instrument (\<open>market_data_server.h\<close>)
  and serialises it with rapidjson. The C types are modelled as follows:
  \<^item> \<open>double\<close> as \<open>real\<close>: comparisons, \<open>round\<close> and the division by 100 are the exact
    ones, so NaN, signed zeros and binary rounding error are outside the model;
  \<open>1e-6\<close> is \<open>1 / 10 ^ 6\<close> and \<open>1e300\<close> is \<open>10 ^ 300\<close>;
  \<^item> \<open>int\<close> as \<open>32 word\<close>, \<open>int64_t\<close> and \<open>uint64_t\<close> as \<open>64 word\<close>;
  \<^item> a \<open>char[32]\<close> buffer as the C string it holds (the bytes before the first NUL);
  \<^item> \<open>T[10]\<close> as a ten-component value \<open>'a arr10\<close>, read with \<open>arr_get\<close>.
\<close>

datatype json =
    JNull
  | JBool bool
  | JString string
  | JUint64 "64 word"
  | JInt "32 word"
  | JInt64 "64 word"
  | JDouble real
  | JArray "json list"
  | JObject "(string \<times> json) list"

datatype 'a arr10 = Arr10 'a 'a 'a 'a 'a 'a 'a 'a 'a 'a

fun arr_list :: "'a arr10 \<Rightarrow> 'a list" where
  "arr_list (Arr10 a0 a1 a2 a3 a4 a5 a6 a7 a8 a9) = [a0, a1, a2, a3, a4, a5, a6, a7, a8, a9]"

definition arr_get :: "'a arr10 \<Rightarrow> nat \<Rightarrow> 'a" where
  "arr_get a i = arr_list a ! i"

fun arr_set :: "'a arr10 \<Rightarrow> nat \<Rightarrow> 'a \<Rightarrow> 'a arr10" where
  "arr_set (Arr10 a0 a1 a2 a3 a4 a5 a6 a7 a8 a9) i v =
     (if i = 0 then Arr10 v a1 a2 a3 a4 a5 a6 a7 a8 a9
      else if i = 1 then Arr10 a0 v a2 a3 a4 a5 a6 a7 a8 a9
      else if i = 2 then Arr10 a0 a1 v a3 a4 a5 a6 a7 a8 a9
      else if i = 3 then Arr10 a0 a1 a2 v a4 a5 a6 a7 a8 a9
      else if i = 4 then Arr10 a0 a1 a2 a3 v a5 a6 a7 a8 a9
      else if i = 5 then Arr10 a0 a1 a2 a3 a4 v a6 a7 a8 a9
      else if i = 6 then Arr10 a0 a1 a2 a3 a4 a5 v a7 a8 a9
      else if i = 7 then Arr10 a0 a1 a2 a3 a4 a5 a6 v a8 a9
      else if i = 8 then Arr10 a0 a1 a2 a3 a4 a5 a6 a7 v a9
      else if i = 9 then Arr10 a0 a1 a2 a3 a4 a5 a6 a7 a8 v
      else Arr10 a0 a1 a2 a3 a4 a5 a6 a7 a8 a9)"

record MarketDataStruct =
  instrument_id :: string
  datetime :: string
  timestamp :: "64 word"
  ask_price :: "real arr10"
  ask_volume :: "32 word arr10"
  bid_price :: "real arr10"
  bid_volume :: "32 word arr10"
  last_price :: real
  highest :: real
  lowest :: real
  open' :: real
  close :: real
  average :: real
  volume :: "32 word"
  amount :: real
  open_interest :: "64 word"
  settlement :: real
  upper_limit :: real
  lower_limit :: real
  pre_open_interest :: "64 word"
  pre_settlement :: real
  pre_close :: real

text \<open>
  The depth-market-data record of the vendor library (\<open>ThostFtdcMdApi.h\<close>, not part of
  the repository): only the fields that \<open>build_market_data_struct\<close> reads, under the
  vendor's names. \<open>TradingDay\<close> and \<open>UpdateTime\<close> are \<open>char[9]\<close> buffers, held as
  C strings.
\<close>

record CThostFtdcDepthMarketDataField =
  TradingDay :: string
  InstrumentID :: string
  UpdateTime :: string
  UpdateMillisec :: int
  AskPrice1 :: real
  AskVolume1 :: "32 word"
  AskPrice2 :: real
  AskVolume2 :: "32 word"
  AskPrice3 :: real
  AskVolume3 :: "32 word"
  AskPrice4 :: real
  AskVolume4 :: "32 word"
  AskPrice5 :: real
  AskVolume5 :: "32 word"
  BidPrice1 :: real
  BidVolume1 :: "32 word"
  BidPrice2 :: real
  BidVolume2 :: "32 word"
  BidPrice3 :: real
  BidVolume3 :: "32 word"
  BidPrice4 :: real
  BidVolume4 :: "32 word"
  BidPrice5 :: real
  BidVolume5 :: "32 word"
  LastPrice :: real
  HighestPrice :: real
  LowestPrice :: real
  OpenPrice :: real
  ClosePrice :: real
  Volume :: "32 word"
  Turnover :: real
  OpenInterest :: real
  SettlementPrice :: real
  UpperLimitPrice :: real
  LowerLimitPrice :: real
  PreOpenInterest :: real
  PreSettlementPrice :: real
  PreClosePrice :: real

section \<open>Building a quote from an upstream tick\<close>

text \<open>
  A \<open>double\<close> is the real number it denotes; NaN, the infinities and the sign of
  zero are outside the model. An arithmetic operation on doubles is the operation
  on the reals followed by \<open>to_double\<close>, the rounding of IEEE 754 binary64 to the
  nearest double, a tie to the one with an even significand: \<open>binade x\<close> is the
  exponent \<open>e\<close> with \<open>2^e \<le> |x| < 2^(e+1)\<close>, at least -1022, and the doubles of that
  binade are the multiples of \<open>2^(e-52)\<close>. A result of magnitude \<open>2^1024\<close> or more
  would be an infinity; the guard below keeps every product under \<open>2^1004\<close>.
\<close>

definition binade :: "real \<Rightarrow> int" where
  "binade x =
     max (if 1 \<le> \<bar>x\<bar> then bitlen \<lfloor>\<bar>x\<bar>\<rfloor> - 1 else - bitlen (\<lceil>1 / \<bar>x\<bar>\<rceil> - 1)) (- 1022)"

definition round_half_even :: "real \<Rightarrow> int" where
  "round_half_even y =
     (let n = \<lfloor>y\<rfloor> in
      if y - of_int n < 1 / 2 then n
      else if 1 / 2 < y - of_int n then n + 1
      else if even n then n else n + 1)"

definition to_double :: "real \<Rightarrow> real" where
  "to_double x =
     of_int (round_half_even (x * 2 powi (52 - binade x))) * 2 powi (binade x - 52)"

text \<open>
  C's \<open>round\<close>: to the nearest integer, halfway cases away from zero. The result
  of \<open>round\<close> on a double is a double.
\<close>

definition c_round :: "real \<Rightarrow> real" where
  "c_round x = (if x < 0 then - of_int \<lfloor>- x + 1 / 2\<rfloor> else of_int \<lfloor>x + 1 / 2\<rfloor>)"

text \<open>\<open>static_cast<int64_t>\<close> of a double: truncation towards zero (in range).\<close>

definition double_to_int64 :: "real \<Rightarrow> 64 word" where
  "double_to_int64 x = word_of_int (if x < 0 then \<lceil>x\<rceil> else \<lfloor>x\<rfloor>)"

text \<open>
  The guard \<open>v > 1e-6 && v < 1e300\<close> and the assignment \<open>round(v * 100.0) / 100.0\<close> that
  \<open>build_market_data_struct\<close> repeats for every price, in double arithmetic: the
  literals \<open>1e-6\<close> and \<open>1e300\<close> are the doubles nearest to those numbers, \<open>100.0\<close> is
  exact, the product and the quotient are rounded. The target was cleared by
  \<open>memset\<close>, so a price that fails the guard is left at 0, and so is the volume of a
  depth level whose price fails it.
\<close>

definition price_is_valid :: "real \<Rightarrow> bool" where
  "price_is_valid v = (to_double (1 / 10 ^ 6) < v \<and> v < to_double (10 ^ 300))"

definition stored_price :: "real \<Rightarrow> real" where
  "stored_price v =
     (if price_is_valid v then to_double (c_round (to_double (v * 100)) / 100) else 0)"

definition stored_level_volume :: "real \<Rightarrow> 32 word \<Rightarrow> 32 word" where
  "stored_level_volume v n = (if price_is_valid v then n else 0)"

text \<open>Reading a C string at an index: the terminating NUL at and after its end.\<close>

definition c_str :: "string \<Rightarrow> string" where
  "c_str s = takeWhile (\<lambda>c. c \<noteq> CHR 0x00) s"

definition c_at :: "string \<Rightarrow> nat \<Rightarrow> char" where
  "c_at s i = (if i < length s then s ! i else CHR 0x00)"

definition is_digit :: "char \<Rightarrow> bool" where
  "is_digit c = (CHR ''0'' \<le> c \<and> c \<le> CHR ''9'')"

text \<open>\<open>'0' + (ms / k % 10)\<close> with C's truncating division, as a byte.\<close>

definition ms_digit :: "int \<Rightarrow> int \<Rightarrow> char" where
  "ms_digit ms k = char_of (48 + (ms sdiv k) smod 10)"

text \<open>
  The datetime buffer \<open>YYYY-MM-DD HH:MM:SS.mmm\<close>: the date part is written when the
  trading day starts with a digit, the time part when the update time is not empty;
  the field is the C string found in the buffer.
\<close>

definition build_datetime :: "string \<Rightarrow> string \<Rightarrow> int \<Rightarrow> string" where
  "build_datetime td ut ms =
     c_str
       ((if is_digit (c_at td 0)
         then [c_at td 0, c_at td 1, c_at td 2, c_at td 3, CHR ''-'',
               c_at td 4, c_at td 5, CHR ''-'', c_at td 6, c_at td 7, CHR '' '']
         else [])
        @ (if c_at ut 0 \<noteq> CHR 0x00
           then map (c_at ut) [0..<8]
                @ [CHR ''.'', ms_digit ms 100, ms_digit ms 10, ms_digit ms 1, CHR 0x00]
           else [CHR 0x00]))"

definition zero_struct :: MarketDataStruct where
  "zero_struct =
     \<lparr> instrument_id = [], datetime = [], timestamp = 0,
       ask_price = Arr10 0 0 0 0 0 0 0 0 0 0, ask_volume = Arr10 0 0 0 0 0 0 0 0 0 0,
       bid_price = Arr10 0 0 0 0 0 0 0 0 0 0, bid_volume = Arr10 0 0 0 0 0 0 0 0 0 0,
       last_price = 0, highest = 0, lowest = 0, open' = 0, close = 0, average = 0,
       volume = 0, amount = 0, open_interest = 0, settlement = 0, upper_limit = 0,
       lower_limit = 0, pre_open_interest = 0, pre_settlement = 0, pre_close = 0 \<rparr>"

text \<open>
  \<open>MarketDataServer::build_market_data_struct\<close>. A null tick pointer gives the cleared
  record. \<open>average\<close> and the depth levels 6..10 are never assigned.
\<close>

fun build_market_data_struct ::
  "CThostFtdcDepthMarketDataField option \<Rightarrow> string \<Rightarrow> 64 word \<Rightarrow> MarketDataStruct" where
  "build_market_data_struct None display_instrument cur_time = zero_struct"
| "build_market_data_struct (Some t) display_instrument cur_time =
     \<lparr> instrument_id = take 31 (c_str display_instrument),
       datetime = build_datetime (TradingDay t) (UpdateTime t) (UpdateMillisec t),
       timestamp = cur_time,
       ask_price = Arr10 (stored_price (AskPrice1 t)) (stored_price (AskPrice2 t))
                     (stored_price (AskPrice3 t)) (stored_price (AskPrice4 t))
                     (stored_price (AskPrice5 t)) 0 0 0 0 0,
       ask_volume = Arr10 (stored_level_volume (AskPrice1 t) (AskVolume1 t))
                      (stored_level_volume (AskPrice2 t) (AskVolume2 t))
                      (stored_level_volume (AskPrice3 t) (AskVolume3 t))
                      (stored_level_volume (AskPrice4 t) (AskVolume4 t))
                      (stored_level_volume (AskPrice5 t) (AskVolume5 t)) 0 0 0 0 0,
       bid_price = Arr10 (stored_price (BidPrice1 t)) (stored_price (BidPrice2 t))
                     (stored_price (BidPrice3 t)) (stored_price (BidPrice4 t))
                     (stored_price (BidPrice5 t)) 0 0 0 0 0,
       bid_volume = Arr10 (stored_level_volume (BidPrice1 t) (BidVolume1 t))
                      (stored_level_volume (BidPrice2 t) (BidVolume2 t))
                      (stored_level_volume (BidPrice3 t) (BidVolume3 t))
                      (stored_level_volume (BidPrice4 t) (BidVolume4 t))
                      (stored_level_volume (BidPrice5 t) (BidVolume5 t)) 0 0 0 0 0,
       last_price = stored_price (LastPrice t),
       highest = stored_price (HighestPrice t),
       lowest = stored_price (LowestPrice t),
       open' = stored_price (OpenPrice t),
       close = stored_price (ClosePrice t),
       average = 0,
       volume = Volume t,
       amount = Turnover t,
       open_interest = double_to_int64 (OpenInterest t),
       settlement = stored_price (SettlementPrice t),
       upper_limit = stored_price (UpperLimitPrice t),
       lower_limit = stored_price (LowerLimitPrice t),
       pre_open_interest = double_to_int64 (PreOpenInterest t),
       pre_settlement = stored_price (PreSettlementPrice t),
       pre_close = stored_price (PreClosePrice t) \<rparr>"

section \<open>Serialising a quote: full form and field-level diff\<close>

definition ASK_PRICE_KEYS :: "string list" where
  "ASK_PRICE_KEYS =
     [''ask_price1'', ''ask_price2'', ''ask_price3'', ''ask_price4'', ''ask_price5'',
      ''ask_price6'', ''ask_price7'', ''ask_price8'', ''ask_price9'', ''ask_price10'']"

definition ASK_VOLUME_KEYS :: "string list" where
  "ASK_VOLUME_KEYS =
     [''ask_volume1'', ''ask_volume2'', ''ask_volume3'', ''ask_volume4'', ''ask_volume5'',
      ''ask_volume6'', ''ask_volume7'', ''ask_volume8'', ''ask_volume9'', ''ask_volume10'']"

definition BID_PRICE_KEYS :: "string list" where
  "BID_PRICE_KEYS =
     [''bid_price1'', ''bid_price2'', ''bid_price3'', ''bid_price4'', ''bid_price5'',
      ''bid_price6'', ''bid_price7'', ''bid_price8'', ''bid_price9'', ''bid_price10'']"

definition BID_VOLUME_KEYS :: "string list" where
  "BID_VOLUME_KEYS =
     [''bid_volume1'', ''bid_volume2'', ''bid_volume3'', ''bid_volume4'', ''bid_volume5'',
      ''bid_volume6'', ''bid_volume7'', ''bid_volume8'', ''bid_volume9'', ''bid_volume10'']"

text \<open>
  \<open>MarketDataServer::struct_to_json\<close>: the members in the order they are added. Levels
  6..10 and \<open>average\<close> are null whatever the record holds.
\<close>

definition struct_to_json_ask_level :: "MarketDataStruct \<Rightarrow> nat \<Rightarrow> (string \<times> json) list" where
  "struct_to_json_ask_level d i =
     [(ASK_PRICE_KEYS ! i, JDouble (arr_get (ask_price d) i)),
      (ASK_VOLUME_KEYS ! i, JInt (arr_get (ask_volume d) i))]"

definition struct_to_json_bid_level :: "MarketDataStruct \<Rightarrow> nat \<Rightarrow> (string \<times> json) list" where
  "struct_to_json_bid_level d i =
     [(BID_PRICE_KEYS ! i, JDouble (arr_get (bid_price d) i)),
      (BID_VOLUME_KEYS ! i, JInt (arr_get (bid_volume d) i))]"

definition struct_to_json_members :: "MarketDataStruct \<Rightarrow> (string \<times> json) list" where
  "struct_to_json_members d =
     [(''instrument_id'', JString (instrument_id d)),
      (''datetime'', JString (datetime d)),
      (''timestamp'', JUint64 (timestamp d)),
      (''ask_price10'', JNull), (''ask_volume10'', JNull),
      (''ask_price9'', JNull), (''ask_volume9'', JNull),
      (''ask_price8'', JNull), (''ask_volume8'', JNull),
      (''ask_price7'', JNull), (''ask_volume7'', JNull),
      (''ask_price6'', JNull), (''ask_volume6'', JNull)]
     @ concat (map (struct_to_json_ask_level d) [4, 3, 2, 1, 0])
     @ concat (map (struct_to_json_bid_level d) [0, 1, 2, 3, 4])
     @ [(''bid_price6'', JNull), (''bid_volume6'', JNull),
        (''bid_price7'', JNull), (''bid_volume7'', JNull),
        (''bid_price8'', JNull), (''bid_volume8'', JNull),
        (''bid_price9'', JNull), (''bid_volume9'', JNull),
        (''bid_price10'', JNull), (''bid_volume10'', JNull),
        (''last_price'', JDouble (last_price d)),
        (''highest'', JDouble (highest d)),
        (''lowest'', JDouble (lowest d)),
        (''open'', JDouble (open' d)),
        (''close'', JDouble (close d)),
        (''average'', JNull),
        (''volume'', JInt (volume d)),
        (''amount'', JDouble (amount d)),
        (''open_interest'', JInt64 (open_interest d)),
        (''settlement'', JDouble (settlement d)),
        (''upper_limit'', JDouble (upper_limit d)),
        (''lower_limit'', JDouble (lower_limit d)),
        (''pre_open_interest'', JInt64 (pre_open_interest d)),
        (''pre_settlement'', JDouble (pre_settlement d)),
        (''pre_close'', JDouble (pre_close d))]"

definition struct_to_json :: "MarketDataStruct \<Rightarrow> json" where
  "struct_to_json d = JObject (struct_to_json_members d)"

text \<open>
  \<open>MarketDataServer::has_struct_changes\<close>: \<open>strcmp\<close> on the two strings, \<open>memcmp\<close> on the
  four arrays, \<open>!=\<close> on the scalars. \<open>average\<close> is not among them.
\<close>

definition has_struct_changes :: "MarketDataStruct \<Rightarrow> MarketDataStruct \<Rightarrow> bool" where
  "has_struct_changes old_data new_data =
     (if instrument_id old_data \<noteq> instrument_id new_data \<or>
         datetime old_data \<noteq> datetime new_data \<or>
         timestamp old_data \<noteq> timestamp new_data then True
      else if ask_price old_data \<noteq> ask_price new_data \<or>
              ask_volume old_data \<noteq> ask_volume new_data \<or>
              bid_price old_data \<noteq> bid_price new_data \<or>
              bid_volume old_data \<noteq> bid_volume new_data then True
      else if last_price old_data \<noteq> last_price new_data \<or>
              highest old_data \<noteq> highest new_data \<or>
              lowest old_data \<noteq> lowest new_data \<or>
              open' old_data \<noteq> open' new_data \<or>
              close old_data \<noteq> close new_data \<or>
              settlement old_data \<noteq> settlement new_data \<or>
              upper_limit old_data \<noteq> upper_limit new_data \<or>
              lower_limit old_data \<noteq> lower_limit new_data \<or>
              pre_settlement old_data \<noteq> pre_settlement new_data \<or>
              pre_close old_data \<noteq> pre_close new_data then True
      else if volume old_data \<noteq> volume new_data \<or>
              amount old_data \<noteq> amount new_data \<or>
              open_interest old_data \<noteq> open_interest new_data \<or>
              pre_open_interest old_data \<noteq> pre_open_interest new_data then True
      else False)"

text \<open>
  \<open>MarketDataServer::compute_struct_diff\<close>: the key/value pairs written between
  \<open>StartObject\<close> and \<open>EndObject\<close>, in writing order. \<open>add_price_diff\<close> is the lambda of
  the source; the two loops run over the ten levels.
\<close>

definition add_price_diff :: "string \<Rightarrow> real \<Rightarrow> real \<Rightarrow> (string \<times> json) list" where
  "add_price_diff key old_val new_val =
     (if old_val \<noteq> new_val then [(key, JDouble new_val)] else [])"

definition diff_ask_level ::
  "MarketDataStruct \<Rightarrow> MarketDataStruct \<Rightarrow> nat \<Rightarrow> (string \<times> json) list" where
  "diff_ask_level old_data new_data i =
     (if arr_get (ask_price old_data) i \<noteq> arr_get (ask_price new_data) i
      then [(ASK_PRICE_KEYS ! i, JDouble (arr_get (ask_price new_data) i))] else [])
     @ (if arr_get (ask_volume old_data) i \<noteq> arr_get (ask_volume new_data) i
        then [(ASK_VOLUME_KEYS ! i, JInt (arr_get (ask_volume new_data) i))] else [])"

definition diff_bid_level ::
  "MarketDataStruct \<Rightarrow> MarketDataStruct \<Rightarrow> nat \<Rightarrow> (string \<times> json) list" where
  "diff_bid_level old_data new_data i =
     (if arr_get (bid_price old_data) i \<noteq> arr_get (bid_price new_data) i
      then [(BID_PRICE_KEYS ! i, JDouble (arr_get (bid_price new_data) i))] else [])
     @ (if arr_get (bid_volume old_data) i \<noteq> arr_get (bid_volume new_data) i
        then [(BID_VOLUME_KEYS ! i, JInt (arr_get (bid_volume new_data) i))] else [])"

definition diff_basic_fields ::
  "MarketDataStruct \<Rightarrow> MarketDataStruct \<Rightarrow> (string \<times> json) list" where
  "diff_basic_fields old_data new_data =
     (if instrument_id old_data \<noteq> instrument_id new_data
      then [(''instrument_id'', JString (instrument_id new_data))] else [])
     @ (if datetime old_data \<noteq> datetime new_data
        then [(''datetime'', JString (datetime new_data))] else [])
     @ (if timestamp old_data \<noteq> timestamp new_data
        then [(''timestamp'', JUint64 (timestamp new_data))] else [])"

definition diff_price_fields ::
  "MarketDataStruct \<Rightarrow> MarketDataStruct \<Rightarrow> (string \<times> json) list" where
  "diff_price_fields old_data new_data =
     add_price_diff ''last_price'' (last_price old_data) (last_price new_data)
     @ add_price_diff ''highest'' (highest old_data) (highest new_data)
     @ add_price_diff ''lowest'' (lowest old_data) (lowest new_data)
     @ add_price_diff ''open'' (open' old_data) (open' new_data)
     @ add_price_diff ''close'' (close old_data) (close new_data)
     @ add_price_diff ''upper_limit'' (upper_limit old_data) (upper_limit new_data)
     @ add_price_diff ''lower_limit'' (lower_limit old_data) (lower_limit new_data)
     @ add_price_diff ''pre_settlement'' (pre_settlement old_data) (pre_settlement new_data)
     @ add_price_diff ''pre_close'' (pre_close old_data) (pre_close new_data)
     @ add_price_diff ''settlement'' (settlement old_data) (settlement new_data)"

definition diff_integer_fields ::
  "MarketDataStruct \<Rightarrow> MarketDataStruct \<Rightarrow> (string \<times> json) list" where
  "diff_integer_fields old_data new_data =
     (if volume old_data \<noteq> volume new_data
      then [(''volume'', JInt (volume new_data))] else [])
     @ (if amount old_data \<noteq> amount new_data
        then [(''amount'', JDouble (amount new_data))] else [])
     @ (if open_interest old_data \<noteq> open_interest new_data
        then [(''open_interest'', JInt64 (open_interest new_data))] else [])
     @ (if pre_open_interest old_data \<noteq> pre_open_interest new_data
        then [(''pre_open_interest'', JInt64 (pre_open_interest new_data))] else [])"

definition compute_struct_diff_members ::
  "MarketDataStruct \<Rightarrow> MarketDataStruct \<Rightarrow> (string \<times> json) list" where
  "compute_struct_diff_members old_data new_data =
     diff_basic_fields old_data new_data
     @ concat (map (diff_ask_level old_data new_data) [0..<10])
     @ concat (map (diff_bid_level old_data new_data) [0..<10])
     @ diff_price_fields old_data new_data
     @ diff_integer_fields old_data new_data"

definition compute_struct_diff :: "MarketDataStruct \<Rightarrow> MarketDataStruct \<Rightarrow> json" where
  "compute_struct_diff old_data new_data =
     JObject (compute_struct_diff_members old_data new_data)"

text \<open>Reading a JSON value: the members of an object, a member by name.\<close>

definition json_members :: "json \<Rightarrow> (string \<times> json) list" where
  "json_members j = (case j of JObject ms \<Rightarrow> ms | _ \<Rightarrow> [])"

definition json_get :: "string \<Rightarrow> json \<Rightarrow> json option" where
  "json_get k j = map_of (json_members j) k"

text \<open>\<open>data[0].quotes\<close> of a frame, and the quote object of one instrument in it.\<close>

definition frame_quotes :: "json \<Rightarrow> (string \<times> json) list" where
  "frame_quotes frame =
     (case json_get ''data'' frame of
        Some (JArray (d0 # rest)) \<Rightarrow>
          (case json_get ''quotes'' d0 of Some q \<Rightarrow> json_members q | None \<Rightarrow> [])
      | _ \<Rightarrow> [])"

definition frame_quote :: "json \<Rightarrow> string \<Rightarrow> json option" where
  "frame_quote frame name = map_of (frame_quotes frame) name"

section \<open>The quote cache and the peek protocol\<close>

text \<open>
  The part of \<open>MarketDataServer\<close> behind \<open>cache_market_data\<close> and
  \<open>handle_peek_message\<close>, as a state record that each operation takes and returns.
  The model is sequential: one operation runs at a time, an atomic load or store is a
  plain read or write, and the mutexes are not modelled. Containers:
  \<^item> \<open>std::vector\<close> as a list; \<open>std::set<std::string>\<close> that is iterated as the list
    of its elements in iteration order;
  \<^item> \<open>std::map\<close> that is only searched as a partial function;
  \<^item> \<open>std::unordered_map\<close> whose \<open>size()\<close> or \<open>empty()\<close> is read as an association
    list with one pair per key.
  A session is reduced to its subscription set and to the frames handed to
  \<open>send_message\<close>, oldest first; a frame is its JSON value, not the text that the
  rapidjson writer prints. \<open>posted\<close> records the \<open>notify_pending_sessions\<close> calls that
  \<open>cache_market_data\<close> posts to the I/O context.
\<close>

record AtomicMarketDataEntry =
  sequence :: "64 word"
  data :: MarketDataStruct
  has_data :: bool

record SnapshotData =
  snap_data :: MarketDataStruct
  display_instrument :: "string option"
  version :: "64 word"
  snap_has_data :: bool

record WebSocketSession =
  subscriptions :: "string list"
  sent_messages :: "json list"

record MarketDataServer =
  sessions :: "string \<rightharpoonup> WebSocketSession"
  market_data_cache :: "AtomicMarketDataEntry list"
  display_instruments_cache :: "string list"
  instrument_index_map :: "(string \<times> int) list"
  noheadtohead_instruments_map :: "string \<rightharpoonup> string"
  session_last_sent_structs :: "string \<rightharpoonup> (string \<times> MarketDataStruct) list"
  session_last_versions :: "string \<rightharpoonup> (string \<times> 64 word) list"
  pending_peek_sessions :: "string set"
  posted :: "string list"

text \<open>\<open>MarketDataServer::get_index\<close>: the slot of an instrument, or -1.\<close>

definition get_index :: "MarketDataServer \<Rightarrow> string \<Rightarrow> int" where
  "get_index s instrument =
     (case map_of (instrument_index_map s) instrument of Some i \<Rightarrow> i | None \<Rightarrow> - 1)"

text \<open>
  \<open>MarketDataServer::get_or_create_index\<close>: the existing slot, or the next free one
  with its display name recorded, or -1 when the cache is full.
\<close>

definition get_or_create_index ::
  "MarketDataServer \<Rightarrow> string \<Rightarrow> string \<Rightarrow> int \<times> MarketDataServer" where
  "get_or_create_index s instrument display =
     (case map_of (instrument_index_map s) instrument of
        Some i \<Rightarrow> (i, s)
      | None \<Rightarrow>
          (let index = int (length (instrument_index_map s)) in
           if index \<ge> int (length (market_data_cache s)) then (- 1, s)
           else
             (index,
              s\<lparr> instrument_index_map :=
                   AList.update instrument index (instrument_index_map s),
                 display_instruments_cache :=
                   (display_instruments_cache s)
                     [nat index :=
                        (if display \<noteq> [] then display
                         else (case noheadtohead_instruments_map s instrument of
                                 Some d \<Rightarrow> d | None \<Rightarrow> instrument))] \<rparr>)))"

text \<open>
  \<open>MarketDataServer::cache_market_data\<close>: the seqlock write. The sequence is loaded,
  stored as \<open>seq + 1\<close>, the record and the flag are written, the sequence is stored as
  \<open>seq + 2\<close>; the additions are those of \<open>uint64_t\<close>. Nothing happens without a slot.
\<close>

definition cache_market_data ::
  "MarketDataServer \<Rightarrow> string \<Rightarrow> MarketDataStruct \<Rightarrow> string \<Rightarrow> MarketDataServer" where
  "cache_market_data s instrument d display =
     (case get_or_create_index s instrument display of (index, s1) \<Rightarrow>
        if index < 0 then s1
        else
          (let entry = market_data_cache s1 ! nat index;
               seq = sequence entry;
               entry1 = entry\<lparr> sequence := seq + 1 \<rparr>;
               entry2 = entry1\<lparr> data := d, has_data := True \<rparr>;
               entry3 = entry2\<lparr> sequence := seq + 2 \<rparr>
           in s1\<lparr> market_data_cache := (market_data_cache s1)[nat index := entry3],
                  posted := posted s1 @ [instrument] \<rparr>))"

text \<open>
  The tick callback \<open>CTPConnection::OnRtnDepthMarketData\<close> up to the cache write:
  display name from the mapping (the raw id when there is none), the record built
  at receive time \<open>cur_time\<close>, then \<open>cache_market_data\<close>.
\<close>

definition OnRtnDepthMarketData ::
  "MarketDataServer \<Rightarrow> CThostFtdcDepthMarketDataField option \<Rightarrow> 64 word \<Rightarrow> MarketDataServer" where
  "OnRtnDepthMarketData s tick cur_time =
     (case tick of
        None \<Rightarrow> s
      | Some t \<Rightarrow>
          (let instrument = InstrumentID t;
               display = (case noheadtohead_instruments_map s instrument of
                            Some d \<Rightarrow> d | None \<Rightarrow> instrument)
           in cache_market_data s instrument
                (build_market_data_struct (Some t) display cur_time) display))"

text \<open>
  The seqlock read loop of \<open>collect_market_data_updates\<close>, a \<open>do ... while\<close> with at
  most 101 rounds. The loop variables are \<open>seq_start\<close>, \<open>seq_end\<close>, the copied record
  and \<open>retries\<close>. An odd sequence yields and continues (the condition is then tested);
  an even one copies the record and reloads the sequence.
\<close>

record seqlock_vars =
  seq_start :: "64 word"
  seq_end :: "64 word"
  data_snapshot :: MarketDataStruct
  retries :: nat

function seqlock_read :: "AtomicMarketDataEntry \<Rightarrow> seqlock_vars \<Rightarrow> seqlock_vars" where
  "seqlock_read entry v =
     (let v1 = v\<lparr> seq_start := sequence entry \<rparr> in
      if seq_start v1 mod 2 \<noteq> 0 then
        (let v2 = v1\<lparr> retries := retries v1 + 1 \<rparr> in
         if retries v2 > 100 then v2
         else if seq_start v2 \<noteq> seq_end v2 then seqlock_read entry v2 else v2)
      else
        (let v2 = v1\<lparr> data_snapshot := data entry \<rparr>;
             v3 = v2\<lparr> seq_end := sequence entry \<rparr>;
             v4 = v3\<lparr> retries := retries v3 + 1 \<rparr> in
         if retries v4 > 100 then v4
         else if seq_start v4 \<noteq> seq_end v4 then seqlock_read entry v4 else v4))"
  by pat_completeness auto
termination
  by (relation "measure (\<lambda>(entry, v). 101 - retries v)") (auto simp: Let_def)

definition seqlock_init :: seqlock_vars where
  "seqlock_init = \<lparr> seq_start = 0, seq_end = 0, data_snapshot = zero_struct, retries = 0 \<rparr>"

text \<open>
  The body of the \<open>for\<close> loop of \<open>collect_market_data_updates\<close> for one subscribed
  instrument: \<open>None\<close> where the source says \<open>continue\<close> or does not append.
\<close>

definition collect_one ::
  "MarketDataServer \<Rightarrow> (string \<times> 64 word) list \<Rightarrow> string \<Rightarrow> (string \<times> SnapshotData) option" where
  "collect_one s last_versions instrument =
     (let index = get_index s instrument in
      if index = - 1 then None
      else
        (let entry = market_data_cache s ! nat index in
         if \<not> has_data entry then None
         else
           (let v = seqlock_read entry seqlock_init in
            if seq_start v \<noteq> seq_end v \<or> seq_start v mod 2 \<noteq> 0 then None
            else
              (let current_version = seq_end v div 2 in
               if last_versions = [] \<or>
                  map_of last_versions instrument = None \<or>
                  current_version > the (map_of last_versions instrument)
               then Some (instrument,
                          \<lparr> snap_data = data_snapshot v,
                            display_instrument =
                              (if index < int (length (display_instruments_cache s))
                               then Some (display_instruments_cache s ! nat index)
                               else None),
                            version = current_version,
                            snap_has_data = True \<rparr>)
               else None))))"

definition collect_market_data_updates ::
  "MarketDataServer \<Rightarrow> string list \<Rightarrow> (string \<times> 64 word) list \<Rightarrow> (string \<times> SnapshotData) list" where
  "collect_market_data_updates s subs last_versions =
     List.map_filter (collect_one s last_versions) subs"

text \<open>The name under which an instrument is keyed in a frame.\<close>

definition frame_key :: "string \<times> SnapshotData \<Rightarrow> string" where
  "frame_key entry =
     (case display_instrument (snd entry) of
        None \<Rightarrow> fst entry
      | Some d \<Rightarrow> if d = [] then fst entry else d)"

definition meta_obj :: json where
  "meta_obj =
     JObject [(''account_id'', JString []), (''ins_list'', JString []),
              (''mdhis_more_data'', JBool False)]"

definition rtn_data_frame :: "(string \<times> json) list \<Rightarrow> json" where
  "rtn_data_frame quotes =
     JObject [(''aid'', JString ''rtn_data''),
              (''data'', JArray [JObject [(''quotes'', JObject quotes)], meta_obj])]"

definition send_message :: "MarketDataServer \<Rightarrow> string \<Rightarrow> json \<Rightarrow> MarketDataServer" where
  "send_message s session_id frame =
     (case sessions s session_id of
        None \<Rightarrow> s
      | Some sess \<Rightarrow>
          s\<lparr> sessions := (sessions s)
                (session_id \<mapsto> sess\<lparr> sent_messages := sent_messages sess @ [frame] \<rparr>) \<rparr>)"

text \<open>\<open>MarketDataServer::send_full_snapshot\<close>: every update in full.\<close>

definition full_snapshot_frame :: "(string \<times> SnapshotData) list \<Rightarrow> json" where
  "full_snapshot_frame updates =
     rtn_data_frame (map (\<lambda>entry. (frame_key entry, struct_to_json (snap_data (snd entry)))) updates)"

definition send_full_snapshot ::
  "MarketDataServer \<Rightarrow> string \<Rightarrow> (string \<times> SnapshotData) list \<Rightarrow> MarketDataServer" where
  "send_full_snapshot s session_id updates =
     send_message s session_id (full_snapshot_frame updates)"

text \<open>
  \<open>MarketDataServer::send_diff_snapshot\<close>. First the updates that differ from the last
  record sent (or have none) are kept; nothing is sent when none is left. Then each
  kept instrument is written as its diff against the last record, or in full when
  there is no last record.
\<close>

definition diff_instruments_of ::
  "(string \<times> SnapshotData) list \<Rightarrow> (string \<times> MarketDataStruct) list \<Rightarrow> (string \<times> SnapshotData) list" where
  "diff_instruments_of updates last_snapshots =
     filter (\<lambda>entry. case map_of last_snapshots (fst entry) of
                        Some old_data \<Rightarrow> has_struct_changes old_data (snap_data (snd entry))
                      | None \<Rightarrow> True) updates"

definition diff_quote_of ::
  "(string \<times> MarketDataStruct) list \<Rightarrow> string \<times> SnapshotData \<Rightarrow> string \<times> json" where
  "diff_quote_of last_snapshots entry =
     (case map_of last_snapshots (fst entry) of
        Some old_data \<Rightarrow> (frame_key entry, compute_struct_diff old_data (snap_data (snd entry)))
      | None \<Rightarrow> (frame_key entry, struct_to_json (snap_data (snd entry))))"

definition diff_snapshot_frame ::
  "(string \<times> SnapshotData) list \<Rightarrow> (string \<times> MarketDataStruct) list \<Rightarrow> json" where
  "diff_snapshot_frame updates last_snapshots =
     rtn_data_frame (map (diff_quote_of last_snapshots) (diff_instruments_of updates last_snapshots))"

definition send_diff_snapshot ::
  "MarketDataServer \<Rightarrow> string \<Rightarrow> (string \<times> SnapshotData) list \<Rightarrow>
   (string \<times> MarketDataStruct) list \<Rightarrow> MarketDataServer" where
  "send_diff_snapshot s session_id updates last_snapshots =
     (if diff_instruments_of updates last_snapshots = [] then s
      else send_message s session_id (diff_snapshot_frame updates last_snapshots))"

text \<open>\<open>MarketDataServer::update_session_state\<close>: the cursors take the collected values.\<close>

definition update_session_state ::
  "MarketDataServer \<Rightarrow> string \<Rightarrow> (string \<times> SnapshotData) list \<Rightarrow> MarketDataServer" where
  "update_session_state s session_id updates =
     (let snapshot_structs =
            (case session_last_sent_structs s session_id of None \<Rightarrow> [] | Some m \<Rightarrow> m);
          version_map =
            (case session_last_versions s session_id of None \<Rightarrow> [] | Some m \<Rightarrow> m)
      in s\<lparr> session_last_sent_structs := (session_last_sent_structs s)
               (session_id \<mapsto>
                  fold (\<lambda>entry m. AList.update (fst entry) (snap_data (snd entry)) m)
                    updates snapshot_structs),
             session_last_versions := (session_last_versions s)
               (session_id \<mapsto>
                  fold (\<lambda>entry m. AList.update (fst entry) (version (snd entry)) m)
                    updates version_map) \<rparr>)"

text \<open>
  \<open>MarketDataServer::handle_peek_message\<close>: unknown session or no subscription: return;
  no update: park the session if it has a last snapshot; first snapshot: full frame;
  otherwise: diff frame; then the cursors are updated.
\<close>

definition handle_peek_message :: "MarketDataServer \<Rightarrow> string \<Rightarrow> MarketDataServer" where
  "handle_peek_message s session_id =
     (case sessions s session_id of
        None \<Rightarrow> s
      | Some sess \<Rightarrow>
          if subscriptions sess = [] then s
          else
            (let last_versions_copy =
                   (case session_last_versions s session_id of None \<Rightarrow> [] | Some m \<Rightarrow> m);
                 has_last_snapshot =
                   (case session_last_sent_structs s session_id of
                      None \<Rightarrow> False | Some m \<Rightarrow> m \<noteq> []);
                 last_sent_structs_copy =
                   (case session_last_sent_structs s session_id of None \<Rightarrow> [] | Some m \<Rightarrow> m);
                 updated_instruments =
                   collect_market_data_updates s (subscriptions sess) last_versions_copy
             in if updated_instruments = [] then
                  (if has_last_snapshot
                   then s\<lparr> pending_peek_sessions := insert session_id (pending_peek_sessions s) \<rparr>
                   else s)
                else
                  update_session_state
                    (if \<not> has_last_snapshot
                     then send_full_snapshot s session_id updated_instruments
                     else send_diff_snapshot s session_id updated_instruments
                            last_sent_structs_copy)
                    session_id updated_instruments))"

section \<open>Upstream connections\<close>

text \<open>
  Modelled from the spec: the header \<open>ctp_connection_manager.h\<close> is not among the
  sources, so the status enumeration is the one of the spec's ConnectionRecord, and
  the members of \<open>CTPConnection\<close> are those that the functions in
  \<open>market_data_server.cpp\<close> use (written without the trailing underscore; \<open>status_\<close> is
  \<open>conn_status\<close>). \<open>CTPConnectionConfig\<close> is the struct of \<open>multi_ctp_config.h\<close>.
\<close>

datatype CTPConnectionStatus = DISCONNECTED | CONNECTING | CONNECTED | LOGGED_IN | ERROR

record CTPConnectionConfig =
  front_addr :: string
  broker_id :: string
  connection_id :: string
  max_subscriptions :: int
  priority :: int
  enabled :: bool

record CTPConnection =
  config :: CTPConnectionConfig
  conn_status :: CTPConnectionStatus
  subscribed_instruments :: "string list"
  error_count :: int

text \<open>
  The vendor API is the environment. A call on the wire is appended to a trace, and
  its return code is what the environment answers to the call with that position in
  the trace: \<open>api k\<close> is the code returned by the call number \<open>k\<close> (from 0).
\<close>

datatype wire_call =
    SubscribeMarketData string string
  | UnSubscribeMarketData string string

type_synonym api_answers = "nat \<Rightarrow> int"

text \<open>\<open>static_cast<size_t>\<close> of an \<open>int\<close>: the value modulo \<open>2 ^ 64\<close>.\<close>

definition static_cast_size_t :: "int \<Rightarrow> nat" where
  "static_cast_size_t m = nat (m mod 2 ^ 64)"

text \<open>The connection as constructed: disconnected, nothing subscribed.\<close>

definition CTPConnection_new :: "CTPConnectionConfig \<Rightarrow> CTPConnection" where
  "CTPConnection_new cfg =
     \<lparr> config = cfg, conn_status = DISCONNECTED, subscribed_instruments = [], error_count = 0 \<rparr>"

text \<open>
  \<open>CTPConnection::subscribe_instrument\<close>, in the order of the source: not logged in,
  already subscribed, at capacity, then the wire call.
\<close>

definition subscribe_instrument ::
  "api_answers \<Rightarrow> CTPConnection \<Rightarrow> wire_call list \<Rightarrow> string \<Rightarrow> bool \<times> CTPConnection \<times> wire_call list" where
  "subscribe_instrument api c wire instrument =
     (if conn_status c \<noteq> LOGGED_IN then (False, c, wire)
      else if instrument \<in> set (subscribed_instruments c) then (True, c, wire)
      else if length (subscribed_instruments c) \<ge> static_cast_size_t (max_subscriptions (config c))
      then (False, c, wire)
      else
        (let ret = api (length wire);
             wire' = wire @ [SubscribeMarketData (connection_id (config c)) instrument]
         in if ret = 0
            then (True, c\<lparr> subscribed_instruments := List.insert instrument (subscribed_instruments c) \<rparr>, wire')
            else (False, c\<lparr> error_count := error_count c + 1 \<rparr>, wire')))"

text \<open>\<open>CTPConnection::unsubscribe_instrument\<close>.\<close>

definition unsubscribe_instrument ::
  "api_answers \<Rightarrow> CTPConnection \<Rightarrow> wire_call list \<Rightarrow> string \<Rightarrow> bool \<times> CTPConnection \<times> wire_call list" where
  "unsubscribe_instrument api c wire instrument =
     (if conn_status c \<noteq> LOGGED_IN then (False, c, wire)
      else if instrument \<notin> set (subscribed_instruments c) then (True, c, wire)
      else
        (let ret = api (length wire);
             wire' = wire @ [UnSubscribeMarketData (connection_id (config c)) instrument]
         in if ret = 0
            then (True, c\<lparr> subscribed_instruments := removeAll instrument (subscribed_instruments c) \<rparr>, wire')
            else (False, c\<lparr> error_count := error_count c + 1 \<rparr>, wire')))"

definition get_subscription_count :: "CTPConnection \<Rightarrow> nat" where
  "get_subscription_count c = length (subscribed_instruments c)"

text \<open>\<open>CTPConnection::can_accept_more_subscriptions\<close>.\<close>

definition can_accept_more_subscriptions :: "CTPConnection \<Rightarrow> bool" where
  "can_accept_more_subscriptions c =
     (if conn_status c \<noteq> LOGGED_IN then False
      else length (subscribed_instruments c) < static_cast_size_t (max_subscriptions (config c)))"

text \<open>
  The operations on one connection, with what each does to the connection itself:
  \<open>start\<close> and \<open>stop\<close>, the two subscription calls, and the callbacks of the vendor
  library (\<open>OnFrontConnected\<close> with the return code of the login request,
  \<open>OnFrontDisconnected\<close>, \<open>OnRspUserLogin\<close>, \<open>OnRspSubMarketData\<close>,
  \<open>OnRspUnSubMarketData\<close> and \<open>OnRspError\<close>, each with its error id). \<open>start\<close> takes
  whether the vendor API object could be created. The calls that a callback makes
  into the dispatcher are part of the dispatcher, below.
\<close>

datatype conn_op =
    Start bool
  | Stop
  | Subscribe string
  | Unsubscribe string
  | FrontConnected int
  | FrontDisconnected
  | RspUserLogin int
  | RspSubMarketData int
  | RspUnSubMarketData int
  | RspError int

definition handle_connection_error :: "CTPConnection \<Rightarrow> CTPConnection" where
  "handle_connection_error c = (if error_count c > 10 then c\<lparr> conn_status := ERROR \<rparr> else c)"

fun conn_step ::
  "api_answers \<Rightarrow> CTPConnection \<times> wire_call list \<Rightarrow> conn_op \<Rightarrow> CTPConnection \<times> wire_call list" where
  "conn_step api (c, wire) (Start created) =
     (if conn_status c \<noteq> DISCONNECTED then (c, wire)
      else if created then (c\<lparr> conn_status := CONNECTING \<rparr>, wire)
      else (c\<lparr> conn_status := ERROR \<rparr>, wire))"
| "conn_step api (c, wire) Stop =
     (c\<lparr> conn_status := DISCONNECTED, subscribed_instruments := [] \<rparr>, wire)"
| "conn_step api (c, wire) (Subscribe instrument) =
     snd (subscribe_instrument api c wire instrument)"
| "conn_step api (c, wire) (Unsubscribe instrument) =
     snd (unsubscribe_instrument api c wire instrument)"
| "conn_step api (c, wire) (FrontConnected login_ret) =
     (if login_ret \<noteq> 0
      then (c\<lparr> conn_status := ERROR, error_count := error_count c + 1 \<rparr>, wire)
      else (c\<lparr> conn_status := CONNECTED \<rparr>, wire))"
| "conn_step api (c, wire) FrontDisconnected =
     (c\<lparr> conn_status := DISCONNECTED, error_count := error_count c + 1 \<rparr>, wire)"
| "conn_step api (c, wire) (RspUserLogin error_id) =
     (if error_id \<noteq> 0
      then (c\<lparr> conn_status := ERROR, error_count := error_count c + 1 \<rparr>, wire)
      else (c\<lparr> conn_status := LOGGED_IN \<rparr>, wire))"
| "conn_step api (c, wire) (RspSubMarketData error_id) =
     (if error_id \<noteq> 0 then (c\<lparr> error_count := error_count c + 1 \<rparr>, wire) else (c, wire))"
| "conn_step api (c, wire) (RspUnSubMarketData error_id) =
     (if error_id \<noteq> 0 then (c\<lparr> error_count := error_count c + 1 \<rparr>, wire) else (c, wire))"
| "conn_step api (c, wire) (RspError error_id) =
     (if error_id \<noteq> 0
      then (handle_connection_error (c\<lparr> error_count := error_count c + 1 \<rparr>), wire)
      else (c, wire))"

definition conn_run ::
  "api_answers \<Rightarrow> CTPConnection \<times> wire_call list \<Rightarrow> conn_op list \<Rightarrow> CTPConnection \<times> wire_call list" where
  "conn_run api cw ops = foldl (conn_step api) cw ops"

text \<open>
  The bound of a connection: the subscribed set (a list without repetition) has at
  most \<open>max_subscriptions\<close> elements.
\<close>

definition within_capacity :: "CTPConnection \<Rightarrow> bool" where
  "within_capacity c =
     (distinct (subscribed_instruments c) \<and>
      int (length (subscribed_instruments c)) \<le> max_subscriptions (config c))"

section \<open>The subscription dispatcher\<close>

text \<open>
  \<open>SubscriptionStatus\<close> and \<open>SubscriptionInfo\<close> are those of
  \<open>subscription_dispatcher.h\<close> (\<open>instrument_id\<close> is \<open>sub_instrument_id\<close> here, the name
  being taken by the quote record). Time points are seconds on an integer clock, and
  an operation that reads the clock takes \<open>now\<close>. \<open>retry_count\<close> is an \<open>int\<close> that
  the source only increments by one and resets; it is an unbounded integer here.
\<close>

datatype SubscriptionStatus = PENDING | SUBSCRIBING | ACTIVE | FAILED | CANCELLED

record SubscriptionInfo =
  sub_instrument_id :: string
  assigned_connection_id :: string
  status :: SubscriptionStatus
  requesting_sessions :: "string set"
  created_time :: int
  last_update_time :: int
  retry_count :: int

definition new_SubscriptionInfo :: "string \<Rightarrow> int \<Rightarrow> SubscriptionInfo" where
  "new_SubscriptionInfo inst_id now =
     \<lparr> sub_instrument_id = inst_id, assigned_connection_id = [], status = PENDING,
       requesting_sessions = {}, created_time = now, last_update_time = now,
       retry_count = 0 \<rparr>"

text \<open>
  The dispatcher together with what it reaches through its pointers: the connections
  of the connection manager and the wire behind them. A \<open>std::map\<close> that the source
  iterates is an association list in ascending key order (\<open>map_insert\<close> keeps it so);
  \<open>retry_set\<close> is the ascending list of a \<open>std::set\<close>. \<open>retry_inserts\<close> is not a program
  variable: it lists, in order, the instruments passed to \<open>retry_set_.insert\<close>.
  Log calls are left out.
\<close>

record SubscriptionDispatcher =
  global_subscriptions :: "(string \<times> SubscriptionInfo) list"
  session_subscriptions :: "string \<rightharpoonup> string list"
  connection_subscriptions :: "string \<rightharpoonup> string set"
  round_robin_counter :: "64 word"
  retry_set :: "string list"
  max_retry_count :: int
  connections :: "(string \<times> CTPConnection) list"
  wire_calls :: "wire_call list"
  retry_inserts :: "string list"

fun map_insert :: "'k::linorder \<Rightarrow> 'v \<Rightarrow> ('k \<times> 'v) list \<Rightarrow> ('k \<times> 'v) list" where
  "map_insert k v [] = [(k, v)]"
| "map_insert k v ((k', v') # m) =
     (if k < k' then (k, v) # (k', v') # m
      else if k = k' then (k, v) # m
      else (k', v') # map_insert k v m)"

definition map_erase :: "'k \<Rightarrow> ('k \<times> 'v) list \<Rightarrow> ('k \<times> 'v) list" where
  "map_erase k m = filter (\<lambda>kv. fst kv \<noteq> k) m"

text \<open>A write through the shared pointer stored under a key.\<close>

definition map_modify :: "'k \<Rightarrow> ('v \<Rightarrow> 'v) \<Rightarrow> ('k \<times> 'v) list \<Rightarrow> ('k \<times> 'v) list" where
  "map_modify k f m = map (\<lambda>kv. if fst kv = k then (fst kv, f (snd kv)) else kv) m"

definition modify_subscription ::
  "string \<Rightarrow> (SubscriptionInfo \<Rightarrow> SubscriptionInfo) \<Rightarrow> SubscriptionDispatcher \<Rightarrow> SubscriptionDispatcher" where
  "modify_subscription instrument f d =
     d\<lparr> global_subscriptions := map_modify instrument f (global_subscriptions d) \<rparr>"

definition retry_set_insert :: "string \<Rightarrow> SubscriptionDispatcher \<Rightarrow> SubscriptionDispatcher" where
  "retry_set_insert instrument d =
     d\<lparr> retry_set := insort_insert instrument (retry_set d),
        retry_inserts := retry_inserts d @ [instrument] \<rparr>"

definition session_subscriptions_insert ::
  "string \<Rightarrow> string \<Rightarrow> SubscriptionDispatcher \<Rightarrow> SubscriptionDispatcher" where
  "session_subscriptions_insert session_id instrument d =
     d\<lparr> session_subscriptions := (session_subscriptions d)
          (session_id \<mapsto>
             insort_insert instrument
               (case session_subscriptions d session_id of None \<Rightarrow> [] | Some l \<Rightarrow> l)) \<rparr>"

text \<open>\<open>CTPConnectionManager::get_available_connections\<close> and \<open>get_connection\<close>.\<close>

definition get_available_connections :: "SubscriptionDispatcher \<Rightarrow> CTPConnection list" where
  "get_available_connections d =
     map snd (filter (\<lambda>kv. conn_status (snd kv) = LOGGED_IN \<and>
                            can_accept_more_subscriptions (snd kv)) (connections d))"

definition get_connection :: "SubscriptionDispatcher \<Rightarrow> string \<Rightarrow> CTPConnection option" where
  "get_connection d cid = map_of (connections d) cid"

text \<open>
  \<open>SubscriptionDispatcher::select_connection_round_robin\<close>: the counter is read and
  incremented only when a connection is available.
\<close>

definition select_connection_round_robin ::
  "SubscriptionDispatcher \<Rightarrow> CTPConnection option \<times> SubscriptionDispatcher" where
  "select_connection_round_robin d =
     (let available_connections = get_available_connections d in
      if available_connections = [] then (None, d)
      else
        (let index = unat (round_robin_counter d) mod length available_connections
         in (Some (available_connections ! index),
             d\<lparr> round_robin_counter := round_robin_counter d + 1 \<rparr>)))"

text \<open>\<open>execute_subscription\<close> and \<open>execute_unsubscription\<close>, with the manager set.\<close>

definition execute_subscription ::
  "api_answers \<Rightarrow> SubscriptionDispatcher \<Rightarrow> string \<Rightarrow> string \<Rightarrow> bool \<times> SubscriptionDispatcher" where
  "execute_subscription api d instrument cid =
     (case get_connection d cid of
        None \<Rightarrow> (False, d)
      | Some c \<Rightarrow>
          (case subscribe_instrument api c (wire_calls d) instrument of
             (result, c', wire') \<Rightarrow>
               (result, d\<lparr> connections := map_modify cid (\<lambda>_. c') (connections d),
                            wire_calls := wire' \<rparr>)))"

definition execute_unsubscription ::
  "api_answers \<Rightarrow> SubscriptionDispatcher \<Rightarrow> string \<Rightarrow> string \<Rightarrow> bool \<times> SubscriptionDispatcher" where
  "execute_unsubscription api d instrument cid =
     (case get_connection d cid of
        None \<Rightarrow> (True, d)
      | Some c \<Rightarrow>
          (case unsubscribe_instrument api c (wire_calls d) instrument of
             (result, c', wire') \<Rightarrow>
               (result, d\<lparr> connections := map_modify cid (\<lambda>_. c') (connections d),
                            wire_calls := wire' \<rparr>)))"

text \<open>\<open>SubscriptionDispatcher::add_subscription\<close>.\<close>

definition add_subscription ::
  "api_answers \<Rightarrow> int \<Rightarrow> SubscriptionDispatcher \<Rightarrow> string \<Rightarrow> string \<Rightarrow> bool \<times> SubscriptionDispatcher" where
  "add_subscription api now d session_id instrument =
     (case map_of (global_subscriptions d) instrument of
        Some info \<Rightarrow>
          (True,
           session_subscriptions_insert session_id instrument
             (modify_subscription instrument
                (\<lambda>i. i\<lparr> requesting_sessions := insert session_id (requesting_sessions i) \<rparr>) d))
      | None \<Rightarrow>
          (let subscription_info =
                 (new_SubscriptionInfo instrument now)\<lparr> requesting_sessions := {session_id} \<rparr>;
               d1 = session_subscriptions_insert session_id instrument
                      (d\<lparr> global_subscriptions :=
                            map_insert instrument subscription_info (global_subscriptions d) \<rparr>)
           in case select_connection_round_robin d1 of
                (None, d2) \<Rightarrow>
                  (let d3 = modify_subscription instrument (\<lambda>i. i\<lparr> status := FAILED \<rparr>) d2
                   in (False,
                       if retry_count subscription_info < max_retry_count d3
                       then retry_set_insert instrument d3 else d3))
              | (Some best_connection, d2) \<Rightarrow>
                  (let cid = connection_id (config best_connection);
                       d3 = modify_subscription instrument
                              (\<lambda>i. i\<lparr> assigned_connection_id := cid, status := SUBSCRIBING \<rparr>) d2
                   in case execute_subscription api d3 instrument cid of
                        (result, d4) \<Rightarrow>
                          (result,
                           if \<not> result
                           then modify_subscription instrument (\<lambda>i. i\<lparr> status := FAILED \<rparr>) d4
                           else d4))))"

text \<open>\<open>SubscriptionDispatcher::remove_subscription\<close>.\<close>

definition remove_subscription ::
  "api_answers \<Rightarrow> SubscriptionDispatcher \<Rightarrow> string \<Rightarrow> string \<Rightarrow> bool \<times> SubscriptionDispatcher" where
  "remove_subscription api d session_id instrument =
     (let d1 =
            (case session_subscriptions d session_id of
               None \<Rightarrow> d
             | Some l \<Rightarrow>
                 (let l' = removeAll instrument l in
                  if l' = []
                  then d\<lparr> session_subscriptions := (session_subscriptions d)(session_id := None) \<rparr>
                  else d\<lparr> session_subscriptions := (session_subscriptions d)(session_id \<mapsto> l') \<rparr>))
      in case map_of (global_subscriptions d1) instrument of
           None \<Rightarrow> (True, d1)
         | Some info \<Rightarrow>
             (let d2 = modify_subscription instrument
                         (\<lambda>i. i\<lparr> requesting_sessions := requesting_sessions i - {session_id} \<rparr>) d1
              in if requesting_sessions info - {session_id} = {}
                 then
                   (case execute_unsubscription api d2 instrument (assigned_connection_id info) of
                      (ok, d3) \<Rightarrow>
                        (True, d3\<lparr> global_subscriptions :=
                                     map_erase instrument (global_subscriptions d3) \<rparr>))
                 else (True, d2)))"

text \<open>\<open>SubscriptionDispatcher::remove_all_subscriptions_for_session\<close>.\<close>

definition remove_all_subscriptions_for_session ::
  "api_answers \<Rightarrow> SubscriptionDispatcher \<Rightarrow> string \<Rightarrow> SubscriptionDispatcher" where
  "remove_all_subscriptions_for_session api d session_id =
     (let instruments_to_remove =
            (case session_subscriptions d session_id of None \<Rightarrow> [] | Some l \<Rightarrow> l)
      in fold (\<lambda>instrument d'. snd (remove_subscription api d' session_id instrument))
           instruments_to_remove d)"

text \<open>\<open>SubscriptionDispatcher::migrate_subscription\<close>.\<close>

definition migrate_subscription ::
  "api_answers \<Rightarrow> SubscriptionDispatcher \<Rightarrow> string \<Rightarrow> string \<Rightarrow> string \<Rightarrow> SubscriptionDispatcher" where
  "migrate_subscription api d instrument from_connection_id to_connection_id =
     (case map_of (global_subscriptions d) instrument of
        None \<Rightarrow> d
      | Some info \<Rightarrow>
          (let d1 = modify_subscription instrument
                      (\<lambda>i. i\<lparr> assigned_connection_id := to_connection_id,
                              status := SUBSCRIBING, retry_count := 0 \<rparr>) d
           in case execute_subscription api d1 instrument to_connection_id of
                (ok, d2) \<Rightarrow>
                  if ok then d2
                  else
                    (let d3 = modify_subscription instrument (\<lambda>i. i\<lparr> status := FAILED \<rparr>) d2
                     in if (0::int) < max_retry_count d3
                        then retry_set_insert instrument d3 else d3)))"

text \<open>
  \<open>SubscriptionDispatcher::handle_connection_failure\<close>: the first loop marks the
  ACTIVE records of the connection FAILED and collects them; the second migrates
  each, or queues it for retry when its count allows; then the connection's index
  entry is erased.
\<close>

definition affected_instruments_of :: "SubscriptionDispatcher \<Rightarrow> string \<Rightarrow> string list" where
  "affected_instruments_of d cid =
     map fst (filter (\<lambda>kv. assigned_connection_id (snd kv) = cid \<and> status (snd kv) = ACTIVE)
                (global_subscriptions d))"

definition mark_affected_failed :: "SubscriptionDispatcher \<Rightarrow> string \<Rightarrow> SubscriptionDispatcher" where
  "mark_affected_failed d cid =
     d\<lparr> global_subscriptions :=
          map (\<lambda>kv. if assigned_connection_id (snd kv) = cid \<and> status (snd kv) = ACTIVE
                     then (fst kv, (snd kv)\<lparr> status := FAILED \<rparr>) else kv)
            (global_subscriptions d) \<rparr>"

definition failover_one ::
  "api_answers \<Rightarrow> string \<Rightarrow> string \<Rightarrow> SubscriptionDispatcher \<Rightarrow> SubscriptionDispatcher" where
  "failover_one api cid instrument d =
     (case select_connection_round_robin d of
        (new_connection, d1) \<Rightarrow>
          (case new_connection of
             Some c \<Rightarrow>
               if connection_id (config c) \<noteq> cid
               then migrate_subscription api d1 instrument cid (connection_id (config c))
               else
                 (case map_of (global_subscriptions d1) instrument of
                    Some info \<Rightarrow>
                      if retry_count info < max_retry_count d1
                      then retry_set_insert instrument d1 else d1
                  | None \<Rightarrow> d1)
           | None \<Rightarrow>
               (case map_of (global_subscriptions d1) instrument of
                  Some info \<Rightarrow>
                    if retry_count info < max_retry_count d1
                    then retry_set_insert instrument d1 else d1
                | None \<Rightarrow> d1)))"

definition handle_connection_failure ::
  "api_answers \<Rightarrow> SubscriptionDispatcher \<Rightarrow> string \<Rightarrow> SubscriptionDispatcher" where
  "handle_connection_failure api d cid =
     (let affected_instruments = affected_instruments_of d cid;
          d1 = mark_affected_failed d cid;
          d2 = fold (failover_one api cid) affected_instruments d1
      in d2\<lparr> connection_subscriptions := (connection_subscriptions d2)(cid := None) \<rparr>)"

text \<open>
  \<open>retry_count++\<close> on an \<open>int\<close> of 32 bits: one more, and from \<open>INT_MAX\<close> the
  two's-complement result \<open>INT_MIN\<close> (the C++ standard leaves that overflow
  undefined; the value is the one the machine computes).
\<close>

definition int_incr :: "int \<Rightarrow> int" where
  "int_incr x = (x + 1 + 2 ^ 31) mod 2 ^ 32 - 2 ^ 31"

text \<open>The three callbacks of a connection into the dispatcher.\<close>

definition on_subscription_success ::
  "int \<Rightarrow> SubscriptionDispatcher \<Rightarrow> string \<Rightarrow> string \<Rightarrow> SubscriptionDispatcher" where
  "on_subscription_success now d cid instrument =
     (case map_of (global_subscriptions d) instrument of
        None \<Rightarrow> d
      | Some info \<Rightarrow>
          (modify_subscription instrument
             (\<lambda>i. i\<lparr> status := ACTIVE, last_update_time := now \<rparr>) d)
          \<lparr> connection_subscriptions := (connection_subscriptions d)
              (cid \<mapsto> insert instrument
                        (case connection_subscriptions d cid of None \<Rightarrow> {} | Some x \<Rightarrow> x)) \<rparr>)"

definition on_subscription_failed ::
  "int \<Rightarrow> SubscriptionDispatcher \<Rightarrow> string \<Rightarrow> string \<Rightarrow> SubscriptionDispatcher" where
  "on_subscription_failed now d cid instrument =
     (case map_of (global_subscriptions d) instrument of
        None \<Rightarrow> d
      | Some info \<Rightarrow>
          (let d1 = modify_subscription instrument
                      (\<lambda>i. i\<lparr> status := FAILED, retry_count := int_incr (retry_count i),
                              last_update_time := now \<rparr>) d
           in if int_incr (retry_count info) < max_retry_count d1
              then retry_set_insert instrument d1 else d1))"

definition on_unsubscription_success ::
  "SubscriptionDispatcher \<Rightarrow> string \<Rightarrow> string \<Rightarrow> SubscriptionDispatcher" where
  "on_unsubscription_success d cid instrument =
     (case connection_subscriptions d cid of
        None \<Rightarrow> d
      | Some x \<Rightarrow>
          if x - {instrument} = {}
          then d\<lparr> connection_subscriptions := (connection_subscriptions d)(cid := None) \<rparr>
          else d\<lparr> connection_subscriptions := (connection_subscriptions d)(cid \<mapsto> x - {instrument}) \<rparr>)"

text \<open>
  \<open>SubscriptionDispatcher::process_pending_subscriptions\<close>: the retry set is copied
  and cleared; each copied instrument whose record is FAILED is tried on the next
  connection; the instruments collected in \<open>failed_again\<close> are inserted at the end.
  The loop state is the dispatcher and \<open>failed_again\<close>.
\<close>

definition retry_one ::
  "api_answers \<Rightarrow> string \<Rightarrow> SubscriptionDispatcher \<times> string list \<Rightarrow> SubscriptionDispatcher \<times> string list" where
  "retry_one api instrument acc =
     (case acc of (d, failed_again) \<Rightarrow>
        (case map_of (global_subscriptions d) instrument of
           None \<Rightarrow> (d, failed_again)
         | Some info \<Rightarrow>
             if status info \<noteq> FAILED then (d, failed_again)
             else
               (case select_connection_round_robin d of
                  (Some c, d1) \<Rightarrow>
                    (let cid = connection_id (config c);
                         d2 = modify_subscription instrument
                                (\<lambda>i. i\<lparr> assigned_connection_id := cid, status := SUBSCRIBING \<rparr>) d1
                     in case execute_subscription api d2 instrument cid of
                          (ok, d3) \<Rightarrow>
                            if \<not> ok
                            then (modify_subscription instrument (\<lambda>i. i\<lparr> status := FAILED \<rparr>) d3,
                                  if retry_count info < max_retry_count d3
                                  then insort_insert instrument failed_again else failed_again)
                            else (modify_subscription instrument (\<lambda>i. i\<lparr> retry_count := 0 \<rparr>) d3,
                                  failed_again))
                | (None, d1) \<Rightarrow>
                    (d1, if retry_count info < max_retry_count d1
                         then insort_insert instrument failed_again else failed_again))))"

definition process_pending_subscriptions ::
  "api_answers \<Rightarrow> SubscriptionDispatcher \<Rightarrow> SubscriptionDispatcher" where
  "process_pending_subscriptions api d =
     (let current_retry_set = retry_set d;
          d0 = d\<lparr> retry_set := [] \<rparr>
      in case fold (retry_one api) current_retry_set (d0, []) of
           (d1, failed_again) \<Rightarrow> fold retry_set_insert failed_again d1)"

definition handle_connection_recovery ::
  "api_answers \<Rightarrow> SubscriptionDispatcher \<Rightarrow> string \<Rightarrow> SubscriptionDispatcher" where
  "handle_connection_recovery api d cid = process_pending_subscriptions api d"

text \<open>\<open>cleanup_expired_subscriptions\<close>: FAILED for more than ten minutes.\<close>

definition cleanup_expired_subscriptions :: "int \<Rightarrow> SubscriptionDispatcher \<Rightarrow> SubscriptionDispatcher" where
  "cleanup_expired_subscriptions now d =
     d\<lparr> global_subscriptions :=
          filter (\<lambda>kv. \<not> (status (snd kv) = FAILED \<and> now - last_update_time (snd kv) > 600))
            (global_subscriptions d) \<rparr>"

text \<open>One round of \<open>maintenance_task\<close>.\<close>

definition maintenance_round ::
  "api_answers \<Rightarrow> int \<Rightarrow> SubscriptionDispatcher \<Rightarrow> SubscriptionDispatcher" where
  "maintenance_round api now d =
     cleanup_expired_subscriptions now (process_pending_subscriptions api d)"

text \<open>
  A run of the dispatcher under the three kinds of event that drive the retry set:
  a session adding a subscription, the upstream failure callback, and the drain of
  the retry set by the maintenance task.
\<close>

datatype dispatcher_op =
    AddSubscription string string
  | SubscriptionFailed string string
  | MaintenanceDrain

fun dispatcher_step ::
  "api_answers \<Rightarrow> int \<Rightarrow> SubscriptionDispatcher \<Rightarrow> dispatcher_op \<Rightarrow> SubscriptionDispatcher" where
  "dispatcher_step api now d (AddSubscription session_id instrument) =
     snd (add_subscription api now d session_id instrument)"
| "dispatcher_step api now d (SubscriptionFailed cid instrument) =
     on_subscription_failed now d cid instrument"
| "dispatcher_step api now d MaintenanceDrain = process_pending_subscriptions api d"

definition dispatcher_run ::
  "api_answers \<Rightarrow> int \<Rightarrow> SubscriptionDispatcher \<Rightarrow> dispatcher_op list \<Rightarrow> SubscriptionDispatcher" where
  "dispatcher_run api now d ops = foldl (dispatcher_step api now) d ops"

text \<open>The dispatcher as constructed and initialised over a set of connections.\<close>

definition SubscriptionDispatcher_new ::
  "int \<Rightarrow> (string \<times> CTPConnection) list \<Rightarrow> SubscriptionDispatcher" where
  "SubscriptionDispatcher_new max_retry conns =
     \<lparr> global_subscriptions = [], session_subscriptions = Map.empty,
       connection_subscriptions = Map.empty, round_robin_counter = 0, retry_set = [],
       max_retry_count = max_retry, connections = conns, wire_calls = [],
       retry_inserts = [] \<rparr>"

text \<open>
  The two invariants of the containers: a \<open>std::map\<close> has one entry per key, and the
  connection manager files each connection under its own id.
\<close>

definition wf_dispatcher :: "SubscriptionDispatcher \<Rightarrow> bool" where
  "wf_dispatcher d =
     (distinct (map fst (global_subscriptions d)) \<and>
      distinct (map fst (connections d)) \<and>
      list_all (\<lambda>kv. connection_id (config (snd kv)) = fst kv) (connections d))"

section \<open>Client frames\<close>

text \<open>
  \<open>WebSocketSession::handle_message\<close>. The rapidjson parser is the environment: the
  handler is given the outcome of \<open>doc.Parse\<close>, a parse error or the members of the
  root object (a root that is not an object is outside the model: \<open>HasMember\<close> on it
  is an assertion failure in rapidjson). What the handler does is the list of its
  actions in order: frames passed to \<open>send_message\<close>, changes of the session's
  subscription set and of the display mapping, and calls into the server. Closing
  the channel is an action too; only \<open>WebSocketSession::close\<close> has it.
\<close>

datatype parse_result = HasParseError | Document "(string \<times> json) list"

datatype session_action =
    SendMessage json
  | SubscriptionsInsert string
  | SetDisplayMapping string string
  | ServerSubscribeInstrument string string
  | ServerHandlePeekMessage string
  | CloseChannel

definition send_error :: "64 word \<Rightarrow> string \<Rightarrow> session_action list" where
  "send_error now error_msg =
     [SendMessage (JObject [(''type'', JString ''error''),
                            (''message'', JString error_msg),
                            (''timestamp'', JInt64 now)])]"

text \<open>
  The tokens that \<open>std::getline\<close> with a delimiter reads until the stream fails:
  \<open>cur\<close> is the token being read. At the end of the input a token is returned only
  if a character was extracted for it.
\<close>

fun getline_tokens :: "char \<Rightarrow> string \<Rightarrow> string \<Rightarrow> string list" where
  "getline_tokens c cur [] = (if cur = [] then [] else [cur])"
| "getline_tokens c cur (x # xs) =
     (if x = c then cur # getline_tokens c [] xs else getline_tokens c (cur @ [x]) xs)"

text \<open>The instrument id after the first dot, or the whole id without one.\<close>

definition strip_exchange :: "string \<Rightarrow> string" where
  "strip_exchange instrument =
     (case dropWhile (\<lambda>c. c \<noteq> CHR ''.'') instrument of
        [] \<Rightarrow> instrument
      | dot # rest \<Rightarrow> rest)"

definition subscribe_one :: "string \<Rightarrow> string \<Rightarrow> session_action list" where
  "subscribe_one session_id instrument =
     (if instrument \<noteq> []
      then [SubscriptionsInsert (strip_exchange instrument),
            SetDisplayMapping (strip_exchange instrument) instrument,
            ServerSubscribeInstrument session_id (strip_exchange instrument)]
      else [])"

definition handle_message :: "string \<Rightarrow> 64 word \<Rightarrow> parse_result \<Rightarrow> session_action list" where
  "handle_message session_id now doc =
     (case doc of
        HasParseError \<Rightarrow> send_error now ''Invalid JSON format''
      | Document members \<Rightarrow>
          (case map_of members ''aid'' of
             Some (JString aid) \<Rightarrow>
               if aid = ''subscribe_quote'' then
                 (case map_of members ''ins_list'' of
                    Some (JString ins_list) \<Rightarrow>
                      concat (map (subscribe_one session_id) (getline_tokens CHR '','' [] ins_list))
                      @ [SendMessage (JObject [(''aid'', JString ''subscribe_quote''),
                                               (''status'', JString ''ok'')])]
                  | _ \<Rightarrow> send_error now ''Missing or invalid 'ins_list' field'')
               else if aid = ''peek_message'' then [ServerHandlePeekMessage session_id]
               else []
           | _ \<Rightarrow> []))"

text \<open>The frames that an action list sends, and whether it closes the channel.\<close>

definition replies_of :: "session_action list \<Rightarrow> json list" where
  "replies_of acts = concat (map (\<lambda>a. case a of SendMessage j \<Rightarrow> [j] | _ \<Rightarrow> []) acts)"

definition is_error_frame :: "json \<Rightarrow> bool" where
  "is_error_frame j =
     (case j of
        JObject [(k1, JString t), (k2, JString m), (k3, JInt64 ts)] \<Rightarrow>
          k1 = ''type'' \<and> t = ''error'' \<and> k2 = ''message'' \<and> k3 = ''timestamp''
      | _ \<Rightarrow> False)"

section \<open>Reading frames on the client side\<close>

text \<open>
  The client is not part of the repository. What the claims call applying a frame as
  a patch is fixed here: each member of a quote object sets the field of that name to
  its value, in the order of the members; a member whose value is null, or has
  another type than the field, or whose name is not a field name, changes nothing.
\<close>

fun index_of :: "'a list \<Rightarrow> 'a \<Rightarrow> nat option" where
  "index_of [] k = None"
| "index_of (x # xs) k = (if x = k then Some 0 else map_option Suc (index_of xs k))"

definition json_string :: "json \<Rightarrow> string option" where
  "json_string v = (case v of JString x \<Rightarrow> Some x | _ \<Rightarrow> None)"

definition json_double :: "json \<Rightarrow> real option" where
  "json_double v = (case v of JDouble x \<Rightarrow> Some x | _ \<Rightarrow> None)"

definition json_int :: "json \<Rightarrow> 32 word option" where
  "json_int v = (case v of JInt x \<Rightarrow> Some x | _ \<Rightarrow> None)"

definition json_int64 :: "json \<Rightarrow> 64 word option" where
  "json_int64 v = (case v of JInt64 x \<Rightarrow> Some x | _ \<Rightarrow> None)"

definition json_uint64 :: "json \<Rightarrow> 64 word option" where
  "json_uint64 v = (case v of JUint64 x \<Rightarrow> Some x | _ \<Rightarrow> None)"

definition patch_level ::
  "string \<Rightarrow> json \<Rightarrow> MarketDataStruct \<Rightarrow> MarketDataStruct" where
  "patch_level k v r =
     (case index_of ASK_PRICE_KEYS k of
        Some i \<Rightarrow> (case json_double v of
                     Some x \<Rightarrow> r\<lparr> ask_price := arr_set (ask_price r) i x \<rparr> | None \<Rightarrow> r)
      | None \<Rightarrow>
     (case index_of ASK_VOLUME_KEYS k of
        Some i \<Rightarrow> (case json_int v of
                     Some x \<Rightarrow> r\<lparr> ask_volume := arr_set (ask_volume r) i x \<rparr> | None \<Rightarrow> r)
      | None \<Rightarrow>
     (case index_of BID_PRICE_KEYS k of
        Some i \<Rightarrow> (case json_double v of
                     Some x \<Rightarrow> r\<lparr> bid_price := arr_set (bid_price r) i x \<rparr> | None \<Rightarrow> r)
      | None \<Rightarrow>
     (case index_of BID_VOLUME_KEYS k of
        Some i \<Rightarrow> (case json_int v of
                     Some x \<Rightarrow> r\<lparr> bid_volume := arr_set (bid_volume r) i x \<rparr> | None \<Rightarrow> r)
      | None \<Rightarrow> r))))"

definition patch_field :: "string \<times> json \<Rightarrow> MarketDataStruct \<Rightarrow> MarketDataStruct" where
  "patch_field kv r =
     (let k = fst kv; v = snd kv in
      if k = ''instrument_id''
      then (case json_string v of Some x \<Rightarrow> r\<lparr> instrument_id := x \<rparr> | None \<Rightarrow> r)
      else if k = ''datetime''
      then (case json_string v of Some x \<Rightarrow> r\<lparr> datetime := x \<rparr> | None \<Rightarrow> r)
      else if k = ''timestamp''
      then (case json_uint64 v of Some x \<Rightarrow> r\<lparr> timestamp := x \<rparr> | None \<Rightarrow> r)
      else if k = ''last_price''
      then (case json_double v of Some x \<Rightarrow> r\<lparr> last_price := x \<rparr> | None \<Rightarrow> r)
      else if k = ''highest''
      then (case json_double v of Some x \<Rightarrow> r\<lparr> highest := x \<rparr> | None \<Rightarrow> r)
      else if k = ''lowest''
      then (case json_double v of Some x \<Rightarrow> r\<lparr> lowest := x \<rparr> | None \<Rightarrow> r)
      else if k = ''open''
      then (case json_double v of Some x \<Rightarrow> r\<lparr> open' := x \<rparr> | None \<Rightarrow> r)
      else if k = ''close''
      then (case json_double v of Some x \<Rightarrow> r\<lparr> close := x \<rparr> | None \<Rightarrow> r)
      else if k = ''average''
      then (case json_double v of Some x \<Rightarrow> r\<lparr> average := x \<rparr> | None \<Rightarrow> r)
      else if k = ''volume''
      then (case json_int v of Some x \<Rightarrow> r\<lparr> volume := x \<rparr> | None \<Rightarrow> r)
      else if k = ''amount''
      then (case json_double v of Some x \<Rightarrow> r\<lparr> amount := x \<rparr> | None \<Rightarrow> r)
      else if k = ''open_interest''
      then (case json_int64 v of Some x \<Rightarrow> r\<lparr> open_interest := x \<rparr> | None \<Rightarrow> r)
      else if k = ''settlement''
      then (case json_double v of Some x \<Rightarrow> r\<lparr> settlement := x \<rparr> | None \<Rightarrow> r)
      else if k = ''upper_limit''
      then (case json_double v of Some x \<Rightarrow> r\<lparr> upper_limit := x \<rparr> | None \<Rightarrow> r)
      else if k = ''lower_limit''
      then (case json_double v of Some x \<Rightarrow> r\<lparr> lower_limit := x \<rparr> | None \<Rightarrow> r)
      else if k = ''pre_open_interest''
      then (case json_int64 v of Some x \<Rightarrow> r\<lparr> pre_open_interest := x \<rparr> | None \<Rightarrow> r)
      else if k = ''pre_settlement''
      then (case json_double v of Some x \<Rightarrow> r\<lparr> pre_settlement := x \<rparr> | None \<Rightarrow> r)
      else if k = ''pre_close''
      then (case json_double v of Some x \<Rightarrow> r\<lparr> pre_close := x \<rparr> | None \<Rightarrow> r)
      else patch_level k v r)"

definition apply_patch :: "(string \<times> json) list \<Rightarrow> MarketDataStruct \<Rightarrow> MarketDataStruct" where
  "apply_patch members r = fold patch_field members r"

text \<open>
  What every record built by \<open>build_market_data_struct\<close> has: \<open>average\<close> and the depth
  levels 6..10 are zero.
\<close>

definition unassigned_fields_zero :: "MarketDataStruct \<Rightarrow> bool" where
  "unassigned_fields_zero q =
     (average q = 0 \<and>
      drop 5 (arr_list (ask_price q)) = [0, 0, 0, 0, 0] \<and>
      drop 5 (arr_list (ask_volume q)) = [0, 0, 0, 0, 0] \<and>
      drop 5 (arr_list (bid_price q)) = [0, 0, 0, 0, 0] \<and>
      drop 5 (arr_list (bid_volume q)) = [0, 0, 0, 0, 0])"

section \<open>Runs of the cache\<close>

text \<open>
  A publish is a call of \<open>cache_market_data\<close>; the version of a slot is what a reader
  computes from its sequence, \<open>seq_end / 2\<close>.
\<close>

definition slot_version :: "MarketDataServer \<Rightarrow> nat \<Rightarrow> 64 word" where
  "slot_version s k = sequence (market_data_cache s ! k) div 2"

definition publish_all ::
  "MarketDataServer \<Rightarrow> (string \<times> MarketDataStruct \<times> string) list \<Rightarrow> MarketDataServer" where
  "publish_all s ps = foldl (\<lambda>s' p. cache_market_data s' (fst p) (fst (snd p)) (snd (snd p))) s ps"

text \<open>The server as constructed, with a cache of \<open>n\<close> slots (50000 in the source).\<close>

definition empty_entry :: AtomicMarketDataEntry where
  "empty_entry = \<lparr> sequence = 0, data = zero_struct, has_data = False \<rparr>"

definition MarketDataServer_new :: "nat \<Rightarrow> MarketDataServer" where
  "MarketDataServer_new n =
     \<lparr> sessions = Map.empty, market_data_cache = replicate n empty_entry,
       display_instruments_cache = replicate n [], instrument_index_map = [],
       noheadtohead_instruments_map = Map.empty, session_last_sent_structs = Map.empty,
       session_last_versions = Map.empty, pending_peek_sessions = {}, posted = [] \<rparr>"

section \<open>Scenarios\<close>

text \<open>
  The tick of scenario S1 of the specification (last 3850.0, bid 3849.0 x 100, ask
  3851.0 x 50, volume 10000, every other field zero or empty) and the second tick of
  scenario S2, which differs from it in the last price and the volume only.
\<close>

definition zero_tick :: CThostFtdcDepthMarketDataField where
  "zero_tick =
     \<lparr> TradingDay = [], InstrumentID = [], UpdateTime = [], UpdateMillisec = 0,
       AskPrice1 = 0, AskVolume1 = 0, AskPrice2 = 0, AskVolume2 = 0, AskPrice3 = 0,
       AskVolume3 = 0, AskPrice4 = 0, AskVolume4 = 0, AskPrice5 = 0, AskVolume5 = 0,
       BidPrice1 = 0, BidVolume1 = 0, BidPrice2 = 0, BidVolume2 = 0, BidPrice3 = 0,
       BidVolume3 = 0, BidPrice4 = 0, BidVolume4 = 0, BidPrice5 = 0, BidVolume5 = 0,
       LastPrice = 0, HighestPrice = 0, LowestPrice = 0, OpenPrice = 0, ClosePrice = 0,
       Volume = 0, Turnover = 0, OpenInterest = 0, SettlementPrice = 0,
       UpperLimitPrice = 0, LowerLimitPrice = 0, PreOpenInterest = 0,
       PreSettlementPrice = 0, PreClosePrice = 0 \<rparr>"

definition tick_S1 :: CThostFtdcDepthMarketDataField where
  "tick_S1 =
     zero_tick\<lparr> InstrumentID := ''rb2501'', LastPrice := 3850, BidPrice1 := 3849,
                BidVolume1 := 100, AskPrice1 := 3851, AskVolume1 := 50, Volume := 10000 \<rparr>"

definition tick_S2 :: CThostFtdcDepthMarketDataField where
  "tick_S2 = tick_S1\<lparr> LastPrice := 3850.5, Volume := 10001 \<rparr>"

text \<open>The quote records that the two ticks build at receive time \<open>t\<close>.\<close>

definition quote_S1 :: "64 word \<Rightarrow> MarketDataStruct" where
  "quote_S1 t =
     \<lparr> instrument_id = ''SHFE.rb2501'', datetime = [], timestamp = t,
       ask_price = Arr10 3851 0 0 0 0 0 0 0 0 0, ask_volume = Arr10 50 0 0 0 0 0 0 0 0 0,
       bid_price = Arr10 3849 0 0 0 0 0 0 0 0 0, bid_volume = Arr10 100 0 0 0 0 0 0 0 0 0,
       last_price = 3850, highest = 0, lowest = 0, open' = 0, close = 0, average = 0,
       volume = 10000, amount = 0, open_interest = 0, settlement = 0, upper_limit = 0,
       lower_limit = 0, pre_open_interest = 0, pre_settlement = 0, pre_close = 0 \<rparr>"

definition quote_S2 :: "64 word \<Rightarrow> MarketDataStruct" where
  "quote_S2 t =
     \<lparr> instrument_id = ''SHFE.rb2501'', datetime = [], timestamp = t,
       ask_price = Arr10 3851 0 0 0 0 0 0 0 0 0, ask_volume = Arr10 50 0 0 0 0 0 0 0 0 0,
       bid_price = Arr10 3849 0 0 0 0 0 0 0 0 0, bid_volume = Arr10 100 0 0 0 0 0 0 0 0 0,
       last_price = 3850.5, highest = 0, lowest = 0, open' = 0, close = 0, average = 0,
       volume = 10001, amount = 0, open_interest = 0, settlement = 0, upper_limit = 0,
       lower_limit = 0, pre_open_interest = 0, pre_settlement = 0, pre_close = 0 \<rparr>"

text \<open>
  A server with \<open>n\<close> cache slots and one session \<open>s1\<close> that has subscribed
  \<open>SHFE.rb2501\<close>; then S1 (first tick received at \<open>t1\<close>, peek) and S2 (second tick
  received at \<open>t2\<close>, peek).
\<close>

definition scenario_start :: "nat \<Rightarrow> MarketDataServer" where
  "scenario_start n =
     (MarketDataServer_new n)
       \<lparr> sessions := [''s1'' \<mapsto> \<lparr> subscriptions = [''rb2501''], sent_messages = [] \<rparr>],
         noheadtohead_instruments_map := [''rb2501'' \<mapsto> ''SHFE.rb2501''] \<rparr>"

definition scenario_S1 :: "nat \<Rightarrow> 64 word \<Rightarrow> MarketDataServer" where
  "scenario_S1 n t1 =
     handle_peek_message (OnRtnDepthMarketData (scenario_start n) (Some tick_S1) t1) ''s1''"

definition scenario_S2 :: "nat \<Rightarrow> 64 word \<Rightarrow> 64 word \<Rightarrow> MarketDataServer" where
  "scenario_S2 n t1 t2 =
     handle_peek_message (OnRtnDepthMarketData (scenario_S1 n t1) (Some tick_S2) t2) ''s1''"

definition frames_sent :: "MarketDataServer \<Rightarrow> string \<Rightarrow> json list" where
  "frames_sent s session_id =
     (case sessions s session_id of None \<Rightarrow> [] | Some sess \<Rightarrow> sent_messages sess)"

text \<open>
  The validity rule in the words of the specification (P8): a value whose absolute
  magnitude is at most \<open>1e-6\<close> or at least \<open>1e300\<close> is stored as 0, any other value
  rounded to two decimals, in the same arithmetic.
\<close>

definition spec_stored_price :: "real \<Rightarrow> real" where
  "spec_stored_price v =
     (if \<bar>v\<bar> \<le> to_double (1 / 10 ^ 6) \<or> \<bar>v\<bar> \<ge> to_double (10 ^ 300) then 0
      else to_double (c_round (to_double (v * 100)) / 100))"

text \<open>The states that the scenario passes through, as records.\<close>

definition state_A :: "nat \<Rightarrow> 64 word \<Rightarrow> MarketDataServer" where
  "state_A n t1 =
     (scenario_start n)
       \<lparr> market_data_cache := (replicate n empty_entry)
            [0 := \<lparr> sequence = 2, data = quote_S1 t1, has_data = True \<rparr>],
         display_instruments_cache := (replicate n [])[0 := ''SHFE.rb2501''],
         instrument_index_map := [(''rb2501'', 0)],
         posted := [''rb2501''] \<rparr>"

definition snap_S1 :: "64 word \<Rightarrow> SnapshotData" where
  "snap_S1 t1 = \<lparr> snap_data = quote_S1 t1, display_instrument = Some ''SHFE.rb2501'',
                  version = 1, snap_has_data = True \<rparr>"

definition state_B :: "nat \<Rightarrow> 64 word \<Rightarrow> MarketDataServer" where
  "state_B n t1 =
     (state_A n t1)
       \<lparr> sessions := [''s1'' \<mapsto> \<lparr> subscriptions = [''rb2501''],
                          sent_messages = [full_snapshot_frame [(''rb2501'', snap_S1 t1)]] \<rparr>],
         session_last_sent_structs := [''s1'' \<mapsto> [(''rb2501'', quote_S1 t1)]],
         session_last_versions := [''s1'' \<mapsto> [(''rb2501'', 1)]] \<rparr>"

definition state_C :: "nat \<Rightarrow> 64 word \<Rightarrow> 64 word \<Rightarrow> MarketDataServer" where
  "state_C n t1 t2 =
     (state_B n t1)
       \<lparr> market_data_cache := (replicate n empty_entry)
            [0 := \<lparr> sequence = 4, data = quote_S2 t2, has_data = True \<rparr>],
         posted := [''rb2501'', ''rb2501''] \<rparr>"

section \<open>The client's view and runs of the server\<close>

text \<open>
  The client's view of a session: the record read so far under each key of the
  quotes objects, oldest frame first. A quote object is applied as a patch to the
  record held under its key, or to a blank record when there is none.
\<close>

definition read_quote ::
  "(string \<times> MarketDataStruct) list \<Rightarrow> string \<times> json \<Rightarrow> (string \<times> MarketDataStruct) list" where
  "read_quote view kq =
     AList.update (fst kq)
       (apply_patch (json_members (snd kq))
          (case map_of view (fst kq) of None \<Rightarrow> zero_struct | Some r \<Rightarrow> r))
       view"

definition read_frame ::
  "(string \<times> MarketDataStruct) list \<Rightarrow> json \<Rightarrow> (string \<times> MarketDataStruct) list" where
  "read_frame view frame = foldl read_quote view (frame_quotes frame)"

definition client_view :: "json list \<Rightarrow> (string \<times> MarketDataStruct) list" where
  "client_view frames = foldl read_frame [] frames"

text \<open>
  A run of the server: ticks arriving from upstream at their receive times, and
  \<open>peek_message\<close> requests of sessions.
\<close>

datatype server_event =
    TickReceived CThostFtdcDepthMarketDataField "64 word"
  | PeekMessage string

fun server_step :: "MarketDataServer \<Rightarrow> server_event \<Rightarrow> MarketDataServer" where
  "server_step s (TickReceived t cur_time) = OnRtnDepthMarketData s (Some t) cur_time"
| "server_step s (PeekMessage session_id) = handle_peek_message s session_id"

definition server_run :: "MarketDataServer \<Rightarrow> server_event list \<Rightarrow> MarketDataServer" where
  "server_run s events = foldl server_step s events"

text \<open>
  The records last sent to a session (\<open>session_last_sent_structs_\<close>), and the key
  under which the frames of a server state carry an instrument: the display name of
  its slot, or the instrument id when that is empty or out of range.
\<close>

definition last_sent_structs :: "MarketDataServer \<Rightarrow> string \<Rightarrow> (string \<times> MarketDataStruct) list" where
  "last_sent_structs s session_id =
     (case session_last_sent_structs s session_id of None \<Rightarrow> [] | Some m \<Rightarrow> m)"

definition display_key :: "MarketDataServer \<Rightarrow> string \<Rightarrow> string" where
  "display_key s instrument =
     (let index = get_index s instrument in
      if index < int (length (display_instruments_cache s)) \<and>
         display_instruments_cache s ! nat index \<noteq> []
      then display_instruments_cache s ! nat index
      else instrument)"

definition display_keys_distinct :: "MarketDataServer \<Rightarrow> bool" where
  "display_keys_distinct s =
     distinct (map (display_key s) (map fst (instrument_index_map s)))"

text \<open>
  The cache as every run leaves it: the slots are numbered below the number of
  instruments, which is at most the size of the cache, and every record in the
  cache has the fields that no tick assigns at zero.
\<close>

definition cache_wf :: "MarketDataServer \<Rightarrow> bool" where
  "cache_wf s =
     (list_all (\<lambda>kv. 0 \<le> snd kv \<and> snd kv < int (length (instrument_index_map s)))
        (instrument_index_map s) \<and>
      length (instrument_index_map s) \<le> length (market_data_cache s) \<and>
      list_all (\<lambda>e. \<not> has_data e \<or> unassigned_fields_zero (data e)) (market_data_cache s))"

text \<open>
  A session in step with its client: the session's subscriptions are a set, and the
  client's view holds, under the key of each instrument, the record last sent for
  it, and nothing else.
\<close>

definition session_synced :: "MarketDataServer \<Rightarrow> string \<Rightarrow> bool" where
  "session_synced s session_id =
     (cache_wf s \<and>
      (case sessions s session_id of
         None \<Rightarrow> True | Some sess \<Rightarrow> distinct (subscriptions sess)) \<and>
      distinct (map fst (last_sent_structs s session_id)) \<and>
      list_all (\<lambda>ir. fst ir \<in> fst ` set (instrument_index_map s) \<and>
                      unassigned_fields_zero (snd ir) \<and>
                      map_of (client_view (frames_sent s session_id))
                        (display_key s (fst ir)) = Some (snd ir))
        (last_sent_structs s session_id) \<and>
      list_all (\<lambda>kr. fst kr \<in> display_key s ` fst ` set (last_sent_structs s session_id))
        (client_view (frames_sent s session_id)))"

text \<open>The same agreement of a view and the records last sent, for proofs.\<close>

definition view_ok ::
  "(string \<Rightarrow> string) \<Rightarrow> string set \<Rightarrow> (string \<times> MarketDataStruct) list \<Rightarrow>
   (string \<times> MarketDataStruct) list \<Rightarrow> bool" where
  "view_ok K D V L =
     ((\<forall>i r. map_of L i = Some r \<longrightarrow>
          i \<in> D \<and> unassigned_fields_zero r \<and> map_of V (K i) = Some r) \<and>
      (\<forall>k \<in> fst ` set V. \<exists>i r. map_of L i = Some r \<and> k = K i))"

section \<open>States of the dispatcher\<close>

text \<open>The record of \<open>i\<close> after failover from \<open>cid\<close>: reassigned, queued or given up.\<close>

definition settled :: "string \<Rightarrow> SubscriptionDispatcher \<Rightarrow> string \<Rightarrow> bool" where
  "settled cid d i =
     (\<exists>info. map_of (global_subscriptions d) i = Some info \<and>
        ((status info = SUBSCRIBING \<and> assigned_connection_id info \<noteq> cid) \<or>
         (status info = FAILED \<and>
          (i \<in> set (retry_set d) \<or> retry_count info \<ge> max_retry_count d))))"

definition unsettled :: "string \<Rightarrow> SubscriptionDispatcher \<Rightarrow> string \<Rightarrow> bool" where
  "unsettled cid d i =
     (\<exists>info. map_of (global_subscriptions d) i = Some info \<and>
        ((status info = SUBSCRIBING \<and> assigned_connection_id info \<noteq> cid) \<or>
         status info = FAILED))"

definition no_active_on :: "string \<Rightarrow> SubscriptionDispatcher \<Rightarrow> bool" where
  "no_active_on cid d =
     list_all (\<lambda>kv. \<not> (status (snd kv) = ACTIVE \<and> assigned_connection_id (snd kv) = cid))
       (global_subscriptions d)"

definition conn_c1 :: CTPConnection where
  "conn_c1 =
     \<lparr> config = \<lparr> front_addr = ''tcp://f1'', broker_id = ''9999'', connection_id = ''c1'',
                   max_subscriptions = 500, priority = 1, enabled = True \<rparr>,
       conn_status = LOGGED_IN, subscribed_instruments = [], error_count = 0 \<rparr>"

definition api_accepts :: api_answers where
  "api_accepts k = 0"

text \<open>
  One connection, one session: the subscription is sent and confirmed.
\<close>

definition active_on_c1 :: SubscriptionDispatcher where
  "active_on_c1 =
     on_subscription_success 0
       (snd (add_subscription api_accepts 0 (SubscriptionDispatcher_new 3 [(''c1'', conn_c1)])
          ''s1'' ''rb2501''))
       ''c1'' ''rb2501''"

text \<open>
  One connection, one session: the subscription is sent, the failure callback
  arrives three times, then the success callback; the maintenance task drains the
  retry set.
\<close>

definition exhausted_on_c1 :: SubscriptionDispatcher where
  "exhausted_on_c1 =
     process_pending_subscriptions api_accepts
       (on_subscription_success 0
          (on_subscription_failed 0
             (on_subscription_failed 0
                (on_subscription_failed 0
                   (snd (add_subscription api_accepts 0
                      (SubscriptionDispatcher_new 3 [(''c1'', conn_c1)]) ''s1'' ''rb2501''))
                   ''c1'' ''rb2501'')
                ''c1'' ''rb2501'')
             ''c1'' ''rb2501'')
          ''c1'' ''rb2501'')"

text \<open>
  Through one drain: the instrument whose count has reached the limit is not
  collected in \<open>failed_again\<close>; its record keeps the count, or is no longer FAILED.
\<close>

definition drain_inv :: "string \<Rightarrow> int \<Rightarrow> string list \<Rightarrow> SubscriptionDispatcher \<times> string list \<Rightarrow> bool" where
  "drain_inv i m lg acc =
     (case acc of (d, failed_again) \<Rightarrow>
        i \<notin> set failed_again \<and> max_retry_count d = m \<and> retry_inserts d = lg \<and>
        retry_set d = [] \<and>
        (case map_of (global_subscriptions d) i of
           None \<Rightarrow> False
         | Some info \<Rightarrow> m \<le> retry_count info \<or> status info \<noteq> FAILED))"

text \<open>
  One connection, one session: the subscription is sent and the failure callback
  arrives twice, and a third time.
\<close>

definition failed_twice :: SubscriptionDispatcher where
  "failed_twice =
     dispatcher_run api_accepts 0 (SubscriptionDispatcher_new 3 [(''c1'', conn_c1)])
       [AddSubscription ''s1'' ''rb2501'', SubscriptionFailed ''c1'' ''rb2501'',
        SubscriptionFailed ''c1'' ''rb2501'']"

definition failed_thrice :: SubscriptionDispatcher where
  "failed_thrice =
     dispatcher_run api_accepts 0 (SubscriptionDispatcher_new 3 [(''c1'', conn_c1)])
       [AddSubscription ''s1'' ''rb2501'', SubscriptionFailed ''c1'' ''rb2501'',
        SubscriptionFailed ''c1'' ''rb2501'', SubscriptionFailed ''c1'' ''rb2501'']"

text \<open>
  One connection, one session: the subscription is sent; four times the failure
  callback arrives, and between two of them the maintenance task resends.
\<close>

definition resent_thrice :: SubscriptionDispatcher where
  "resent_thrice =
     dispatcher_run api_accepts 0 (SubscriptionDispatcher_new 3 [(''c1'', conn_c1)])
       [AddSubscription ''s1'' ''rb2501'',
        SubscriptionFailed ''c1'' ''rb2501'', MaintenanceDrain,
        SubscriptionFailed ''c1'' ''rb2501'', MaintenanceDrain,
        SubscriptionFailed ''c1'' ''rb2501'', MaintenanceDrain,
        SubscriptionFailed ''c1'' ''rb2501'']"

text \<open>
  The sessions of a list subscribing one instrument in turn, and leaving it in
  turn.
\<close>

definition sessions_subscribe ::
  "api_answers \<Rightarrow> int \<Rightarrow> string \<Rightarrow> string list \<Rightarrow> SubscriptionDispatcher \<Rightarrow> SubscriptionDispatcher" where
  "sessions_subscribe api now instrument session_ids d =
     fold (\<lambda>session_id d'. snd (add_subscription api now d' session_id instrument)) session_ids d"

definition sessions_leave ::
  "api_answers \<Rightarrow> string \<Rightarrow> string list \<Rightarrow> SubscriptionDispatcher \<Rightarrow> SubscriptionDispatcher" where
  "sessions_leave api instrument session_ids d =
     fold (\<lambda>session_id d'. snd (remove_subscription api d' session_id instrument)) session_ids d"

text \<open>
  The instrument has a record requested by the sessions \<open>R\<close> and assigned to the
  connection \<open>cid\<close>, which is logged in and holds the instrument; \<open>w\<close> is the wire.
\<close>

definition held_on ::
  "string \<Rightarrow> string \<Rightarrow> string set \<Rightarrow> wire_call list \<Rightarrow> SubscriptionDispatcher \<Rightarrow> bool" where
  "held_on i cid R w d =
     ((case map_of (global_subscriptions d) i of
         None \<Rightarrow> False
       | Some info \<Rightarrow> requesting_sessions info = R \<and> assigned_connection_id info = cid) \<and>
      wire_calls d = w \<and>
      (case map_of (connections d) cid of
         None \<Rightarrow> False
       | Some c \<Rightarrow> conn_status c = LOGGED_IN \<and> i \<in> set (subscribed_instruments c) \<and>
                   connection_id (config c) = cid))"

section \<open>Properties of the diff engine\<close>

lemma upt_10: "[0..<10] = [0, 1, 2, 3, 4, 5, 6, 7, 8, 9]"
  by code_simp

lemma diff_average_only:
  "\<not> has_struct_changes old_data (old_data\<lparr> average := a \<rparr>)"
  "compute_struct_diff old_data (old_data\<lparr> average := a \<rparr>) = JObject []"
  by (simp_all add: has_struct_changes_def compute_struct_diff_def compute_struct_diff_members_def
      diff_basic_fields_def diff_ask_level_def diff_bid_level_def diff_price_fields_def
      diff_integer_fields_def add_price_diff_def)

lemma level_key_simps:
  "ASK_PRICE_KEYS ! 0 = ''ask_price1''" "ASK_PRICE_KEYS ! 1 = ''ask_price2''"
  "ASK_PRICE_KEYS ! 2 = ''ask_price3''" "ASK_PRICE_KEYS ! 3 = ''ask_price4''"
  "ASK_PRICE_KEYS ! 4 = ''ask_price5''" "ASK_PRICE_KEYS ! 5 = ''ask_price6''"
  "ASK_PRICE_KEYS ! 6 = ''ask_price7''" "ASK_PRICE_KEYS ! 7 = ''ask_price8''"
  "ASK_PRICE_KEYS ! 8 = ''ask_price9''" "ASK_PRICE_KEYS ! 9 = ''ask_price10''"
  "ASK_VOLUME_KEYS ! 0 = ''ask_volume1''" "ASK_VOLUME_KEYS ! 1 = ''ask_volume2''"
  "ASK_VOLUME_KEYS ! 2 = ''ask_volume3''" "ASK_VOLUME_KEYS ! 3 = ''ask_volume4''"
  "ASK_VOLUME_KEYS ! 4 = ''ask_volume5''" "ASK_VOLUME_KEYS ! 5 = ''ask_volume6''"
  "ASK_VOLUME_KEYS ! 6 = ''ask_volume7''" "ASK_VOLUME_KEYS ! 7 = ''ask_volume8''"
  "ASK_VOLUME_KEYS ! 8 = ''ask_volume9''" "ASK_VOLUME_KEYS ! 9 = ''ask_volume10''"
  "BID_PRICE_KEYS ! 0 = ''bid_price1''" "BID_PRICE_KEYS ! 1 = ''bid_price2''"
  "BID_PRICE_KEYS ! 2 = ''bid_price3''" "BID_PRICE_KEYS ! 3 = ''bid_price4''"
  "BID_PRICE_KEYS ! 4 = ''bid_price5''" "BID_PRICE_KEYS ! 5 = ''bid_price6''"
  "BID_PRICE_KEYS ! 6 = ''bid_price7''" "BID_PRICE_KEYS ! 7 = ''bid_price8''"
  "BID_PRICE_KEYS ! 8 = ''bid_price9''" "BID_PRICE_KEYS ! 9 = ''bid_price10''"
  "BID_VOLUME_KEYS ! 0 = ''bid_volume1''" "BID_VOLUME_KEYS ! 1 = ''bid_volume2''"
  "BID_VOLUME_KEYS ! 2 = ''bid_volume3''" "BID_VOLUME_KEYS ! 3 = ''bid_volume4''"
  "BID_VOLUME_KEYS ! 4 = ''bid_volume5''" "BID_VOLUME_KEYS ! 5 = ''bid_volume6''"
  "BID_VOLUME_KEYS ! 6 = ''bid_volume7''" "BID_VOLUME_KEYS ! 7 = ''bid_volume8''"
  "BID_VOLUME_KEYS ! 8 = ''bid_volume9''" "BID_VOLUME_KEYS ! 9 = ''bid_volume10''"
  "ASK_PRICE_KEYS ! Suc 0 = ''ask_price2''" "ASK_VOLUME_KEYS ! Suc 0 = ''ask_volume2''"
  "BID_PRICE_KEYS ! Suc 0 = ''bid_price2''" "BID_VOLUME_KEYS ! Suc 0 = ''bid_volume2''"
  by (simp_all add: ASK_PRICE_KEYS_def ASK_VOLUME_KEYS_def BID_PRICE_KEYS_def BID_VOLUME_KEYS_def)

lemma list_all_if_single:
  "list_all P (if c then [x] else []) = (c \<longrightarrow> P x)"
  by simp

lemma diff_members_keys_not_average:
  "list_all (\<lambda>kv. fst kv \<noteq> ''average'') (compute_struct_diff_members old_data new_data)"
  by (simp add: compute_struct_diff_members_def upt_10 level_key_simps list_all_if_single
      diff_basic_fields_def diff_ask_level_def diff_bid_level_def diff_price_fields_def
      diff_integer_fields_def add_price_diff_def)

lemma diff_members_no_average:
  "''average'' \<notin> fst ` set (compute_struct_diff_members old_data new_data)"
  using diff_members_keys_not_average [of old_data new_data]
  by (auto simp: list_all_iff)

lemma full_average_null:
  "map_of (struct_to_json_members d) ''average'' = Some JNull"
  by (simp add: struct_to_json_members_def struct_to_json_ask_level_def
      struct_to_json_bid_level_def level_key_simps)

lemma patch_field_scalar:
  "patch_field (''instrument_id'', JString str) r = r\<lparr> instrument_id := str \<rparr>"
  "patch_field (''datetime'', JString str) r = r\<lparr> datetime := str \<rparr>"
  "patch_field (''timestamp'', JUint64 u) r = r\<lparr> timestamp := u \<rparr>"
  "patch_field (''last_price'', JDouble x) r = r\<lparr> last_price := x \<rparr>"
  "patch_field (''highest'', JDouble x) r = r\<lparr> highest := x \<rparr>"
  "patch_field (''lowest'', JDouble x) r = r\<lparr> lowest := x \<rparr>"
  "patch_field (''open'', JDouble x) r = r\<lparr> open' := x \<rparr>"
  "patch_field (''close'', JDouble x) r = r\<lparr> close := x \<rparr>"
  "patch_field (''volume'', JInt n) r = r\<lparr> volume := n \<rparr>"
  "patch_field (''amount'', JDouble x) r = r\<lparr> amount := x \<rparr>"
  "patch_field (''open_interest'', JInt64 m) r = r\<lparr> open_interest := m \<rparr>"
  "patch_field (''settlement'', JDouble x) r = r\<lparr> settlement := x \<rparr>"
  "patch_field (''upper_limit'', JDouble x) r = r\<lparr> upper_limit := x \<rparr>"
  "patch_field (''lower_limit'', JDouble x) r = r\<lparr> lower_limit := x \<rparr>"
  "patch_field (''pre_open_interest'', JInt64 m) r = r\<lparr> pre_open_interest := m \<rparr>"
  "patch_field (''pre_settlement'', JDouble x) r = r\<lparr> pre_settlement := x \<rparr>"
  "patch_field (''pre_close'', JDouble x) r = r\<lparr> pre_close := x \<rparr>"
  by (simp_all add: patch_field_def json_string_def json_double_def json_int_def
      json_int64_def json_uint64_def)

lemma patch_field_level:
  "patch_field (''ask_price1'', JDouble x) r = r\<lparr> ask_price := arr_set (ask_price r) 0 x \<rparr>"
  "patch_field (''ask_price2'', JDouble x) r = r\<lparr> ask_price := arr_set (ask_price r) 1 x \<rparr>"
  "patch_field (''ask_price3'', JDouble x) r = r\<lparr> ask_price := arr_set (ask_price r) 2 x \<rparr>"
  "patch_field (''ask_price4'', JDouble x) r = r\<lparr> ask_price := arr_set (ask_price r) 3 x \<rparr>"
  "patch_field (''ask_price5'', JDouble x) r = r\<lparr> ask_price := arr_set (ask_price r) 4 x \<rparr>"
  "patch_field (''ask_price6'', JDouble x) r = r\<lparr> ask_price := arr_set (ask_price r) 5 x \<rparr>"
  "patch_field (''ask_price7'', JDouble x) r = r\<lparr> ask_price := arr_set (ask_price r) 6 x \<rparr>"
  "patch_field (''ask_price8'', JDouble x) r = r\<lparr> ask_price := arr_set (ask_price r) 7 x \<rparr>"
  "patch_field (''ask_price9'', JDouble x) r = r\<lparr> ask_price := arr_set (ask_price r) 8 x \<rparr>"
  "patch_field (''ask_price10'', JDouble x) r = r\<lparr> ask_price := arr_set (ask_price r) 9 x \<rparr>"
  "patch_field (''ask_volume1'', JInt n) r = r\<lparr> ask_volume := arr_set (ask_volume r) 0 n \<rparr>"
  "patch_field (''ask_volume2'', JInt n) r = r\<lparr> ask_volume := arr_set (ask_volume r) 1 n \<rparr>"
  "patch_field (''ask_volume3'', JInt n) r = r\<lparr> ask_volume := arr_set (ask_volume r) 2 n \<rparr>"
  "patch_field (''ask_volume4'', JInt n) r = r\<lparr> ask_volume := arr_set (ask_volume r) 3 n \<rparr>"
  "patch_field (''ask_volume5'', JInt n) r = r\<lparr> ask_volume := arr_set (ask_volume r) 4 n \<rparr>"
  "patch_field (''ask_volume6'', JInt n) r = r\<lparr> ask_volume := arr_set (ask_volume r) 5 n \<rparr>"
  "patch_field (''ask_volume7'', JInt n) r = r\<lparr> ask_volume := arr_set (ask_volume r) 6 n \<rparr>"
  "patch_field (''ask_volume8'', JInt n) r = r\<lparr> ask_volume := arr_set (ask_volume r) 7 n \<rparr>"
  "patch_field (''ask_volume9'', JInt n) r = r\<lparr> ask_volume := arr_set (ask_volume r) 8 n \<rparr>"
  "patch_field (''ask_volume10'', JInt n) r = r\<lparr> ask_volume := arr_set (ask_volume r) 9 n \<rparr>"
  "patch_field (''bid_price1'', JDouble x) r = r\<lparr> bid_price := arr_set (bid_price r) 0 x \<rparr>"
  "patch_field (''bid_price2'', JDouble x) r = r\<lparr> bid_price := arr_set (bid_price r) 1 x \<rparr>"
  "patch_field (''bid_price3'', JDouble x) r = r\<lparr> bid_price := arr_set (bid_price r) 2 x \<rparr>"
  "patch_field (''bid_price4'', JDouble x) r = r\<lparr> bid_price := arr_set (bid_price r) 3 x \<rparr>"
  "patch_field (''bid_price5'', JDouble x) r = r\<lparr> bid_price := arr_set (bid_price r) 4 x \<rparr>"
  "patch_field (''bid_price6'', JDouble x) r = r\<lparr> bid_price := arr_set (bid_price r) 5 x \<rparr>"
  "patch_field (''bid_price7'', JDouble x) r = r\<lparr> bid_price := arr_set (bid_price r) 6 x \<rparr>"
  "patch_field (''bid_price8'', JDouble x) r = r\<lparr> bid_price := arr_set (bid_price r) 7 x \<rparr>"
  "patch_field (''bid_price9'', JDouble x) r = r\<lparr> bid_price := arr_set (bid_price r) 8 x \<rparr>"
  "patch_field (''bid_price10'', JDouble x) r = r\<lparr> bid_price := arr_set (bid_price r) 9 x \<rparr>"
  "patch_field (''bid_volume1'', JInt n) r = r\<lparr> bid_volume := arr_set (bid_volume r) 0 n \<rparr>"
  "patch_field (''bid_volume2'', JInt n) r = r\<lparr> bid_volume := arr_set (bid_volume r) 1 n \<rparr>"
  "patch_field (''bid_volume3'', JInt n) r = r\<lparr> bid_volume := arr_set (bid_volume r) 2 n \<rparr>"
  "patch_field (''bid_volume4'', JInt n) r = r\<lparr> bid_volume := arr_set (bid_volume r) 3 n \<rparr>"
  "patch_field (''bid_volume5'', JInt n) r = r\<lparr> bid_volume := arr_set (bid_volume r) 4 n \<rparr>"
  "patch_field (''bid_volume6'', JInt n) r = r\<lparr> bid_volume := arr_set (bid_volume r) 5 n \<rparr>"
  "patch_field (''bid_volume7'', JInt n) r = r\<lparr> bid_volume := arr_set (bid_volume r) 6 n \<rparr>"
  "patch_field (''bid_volume8'', JInt n) r = r\<lparr> bid_volume := arr_set (bid_volume r) 7 n \<rparr>"
  "patch_field (''bid_volume9'', JInt n) r = r\<lparr> bid_volume := arr_set (bid_volume r) 8 n \<rparr>"
  "patch_field (''bid_volume10'', JInt n) r = r\<lparr> bid_volume := arr_set (bid_volume r) 9 n \<rparr>"
  by (simp_all add: patch_field_def patch_level_def ASK_PRICE_KEYS_def ASK_VOLUME_KEYS_def
      BID_PRICE_KEYS_def BID_VOLUME_KEYS_def json_double_def json_int_def eval_nat_numeral)

lemma patch_field_null:
  "patch_field (''ask_price6'', JNull) r = r"
  "patch_field (''ask_price7'', JNull) r = r"
  "patch_field (''ask_price8'', JNull) r = r"
  "patch_field (''ask_price9'', JNull) r = r"
  "patch_field (''ask_price10'', JNull) r = r"
  "patch_field (''ask_volume6'', JNull) r = r"
  "patch_field (''ask_volume7'', JNull) r = r"
  "patch_field (''ask_volume8'', JNull) r = r"
  "patch_field (''ask_volume9'', JNull) r = r"
  "patch_field (''ask_volume10'', JNull) r = r"
  "patch_field (''bid_price6'', JNull) r = r"
  "patch_field (''bid_price7'', JNull) r = r"
  "patch_field (''bid_price8'', JNull) r = r"
  "patch_field (''bid_price9'', JNull) r = r"
  "patch_field (''bid_price10'', JNull) r = r"
  "patch_field (''bid_volume6'', JNull) r = r"
  "patch_field (''bid_volume7'', JNull) r = r"
  "patch_field (''bid_volume8'', JNull) r = r"
  "patch_field (''bid_volume9'', JNull) r = r"
  "patch_field (''bid_volume10'', JNull) r = r"
  "patch_field (''average'', JNull) r = r"
  by (simp_all add: patch_field_def patch_level_def ASK_PRICE_KEYS_def ASK_VOLUME_KEYS_def
      BID_PRICE_KEYS_def BID_VOLUME_KEYS_def json_double_def json_int_def)

lemma apply_patch_Nil: "apply_patch [] r = r"
  by (simp add: apply_patch_def)

lemma apply_patch_Cons: "apply_patch (kv # kvs) r = apply_patch kvs (patch_field kv r)"
  by (simp add: apply_patch_def)

lemma apply_patch_append: "apply_patch (xs @ ys) r = apply_patch ys (apply_patch xs r)"
  by (simp add: apply_patch_def)

lemma less_10_cases:
  "(i::nat) < 10 \<Longrightarrow> i = 0 \<or> i = 1 \<or> i = 2 \<or> i = 3 \<or> i = 4 \<or> i = 5 \<or> i = 6 \<or> i = 7 \<or> i = 8 \<or> i = 9"
  by arith

lemma arr_get_set_same: "i < 10 \<Longrightarrow> arr_get (arr_set a i v) i = v"
  by (cases a, drule less_10_cases) (auto simp: arr_get_def)

lemma arr_get_set_other: "i < 10 \<Longrightarrow> j \<noteq> i \<Longrightarrow> arr_get (arr_set a j v) i = arr_get a i"
  by (cases a, drule less_10_cases) (auto simp: arr_get_def)

lemma arr_set_get_id: "arr_set a i (arr_get a i) = a"
  by (cases a) (auto simp: arr_get_def)

lemma arr_rebuild:
  "arr_set (arr_set (arr_set (arr_set (arr_set (arr_set (arr_set (arr_set (arr_set (arr_set a
     0 (arr_get b 0)) (Suc 0) (arr_get b (Suc 0))) 2 (arr_get b 2)) 3 (arr_get b 3)) 4 (arr_get b 4))
     5 (arr_get b 5)) 6 (arr_get b 6)) 7 (arr_get b 7)) 8 (arr_get b 8)) 9 (arr_get b 9) = b"
  by (cases a, cases b) (simp add: arr_get_def)

lemma patch_field_level_nth:
  assumes "i < 10"
  shows "patch_field (ASK_PRICE_KEYS ! i, JDouble x) r = r\<lparr> ask_price := arr_set (ask_price r) i x \<rparr>"
    and "patch_field (ASK_VOLUME_KEYS ! i, JInt n) r = r\<lparr> ask_volume := arr_set (ask_volume r) i n \<rparr>"
    and "patch_field (BID_PRICE_KEYS ! i, JDouble x) r = r\<lparr> bid_price := arr_set (bid_price r) i x \<rparr>"
    and "patch_field (BID_VOLUME_KEYS ! i, JInt n) r = r\<lparr> bid_volume := arr_set (bid_volume r) i n \<rparr>"
  using less_10_cases [OF assms]
  by (auto simp: level_key_simps patch_field_level)

lemma apply_diff_ask_level:
  assumes "i < 10"
    and "arr_get (ask_price r) i = arr_get (ask_price old_data) i"
    and "arr_get (ask_volume r) i = arr_get (ask_volume old_data) i"
  shows "apply_patch (diff_ask_level old_data new_data i) r =
         r\<lparr> ask_price := arr_set (ask_price r) i (arr_get (ask_price new_data) i),
            ask_volume := arr_set (ask_volume r) i (arr_get (ask_volume new_data) i) \<rparr>"
proof -
  have p: "arr_get (ask_price old_data) i = arr_get (ask_price new_data) i \<Longrightarrow>
           arr_set (ask_price r) i (arr_get (ask_price new_data) i) = ask_price r"
    using assms(2) arr_set_get_id [of "ask_price r" i] by simp
  have v: "arr_get (ask_volume old_data) i = arr_get (ask_volume new_data) i \<Longrightarrow>
           arr_set (ask_volume r) i (arr_get (ask_volume new_data) i) = ask_volume r"
    using assms(3) arr_set_get_id [of "ask_volume r" i] by simp
  show ?thesis
    by (cases "arr_get (ask_price old_data) i = arr_get (ask_price new_data) i";
        cases "arr_get (ask_volume old_data) i = arr_get (ask_volume new_data) i")
       (simp_all add: diff_ask_level_def apply_patch_Nil apply_patch_Cons
          patch_field_level_nth [OF assms(1)] p v)
qed

lemma apply_diff_bid_level:
  assumes "i < 10"
    and "arr_get (bid_price r) i = arr_get (bid_price old_data) i"
    and "arr_get (bid_volume r) i = arr_get (bid_volume old_data) i"
  shows "apply_patch (diff_bid_level old_data new_data i) r =
         r\<lparr> bid_price := arr_set (bid_price r) i (arr_get (bid_price new_data) i),
            bid_volume := arr_set (bid_volume r) i (arr_get (bid_volume new_data) i) \<rparr>"
proof -
  have p: "arr_get (bid_price old_data) i = arr_get (bid_price new_data) i \<Longrightarrow>
           arr_set (bid_price r) i (arr_get (bid_price new_data) i) = bid_price r"
    using assms(2) arr_set_get_id [of "bid_price r" i] by simp
  have v: "arr_get (bid_volume old_data) i = arr_get (bid_volume new_data) i \<Longrightarrow>
           arr_set (bid_volume r) i (arr_get (bid_volume new_data) i) = bid_volume r"
    using assms(3) arr_set_get_id [of "bid_volume r" i] by simp
  show ?thesis
    by (cases "arr_get (bid_price old_data) i = arr_get (bid_price new_data) i";
        cases "arr_get (bid_volume old_data) i = arr_get (bid_volume new_data) i")
       (simp_all add: diff_bid_level_def apply_patch_Nil apply_patch_Cons
          patch_field_level_nth [OF assms(1)] p v)
qed

lemma apply_ask_loop:
  assumes "ask_price r = ask_price old_data" and "ask_volume r = ask_volume old_data"
  shows "apply_patch (concat (map (diff_ask_level old_data new_data) [0..<10])) r =
         r\<lparr> ask_price := ask_price new_data, ask_volume := ask_volume new_data \<rparr>"
  using assms
  by (simp add: upt_10 apply_patch_append apply_patch_Nil apply_diff_ask_level
      arr_get_set_other arr_rebuild)

lemma apply_bid_loop:
  assumes "bid_price r = bid_price old_data" and "bid_volume r = bid_volume old_data"
  shows "apply_patch (concat (map (diff_bid_level old_data new_data) [0..<10])) r =
         r\<lparr> bid_price := bid_price new_data, bid_volume := bid_volume new_data \<rparr>"
  using assms
  by (simp add: upt_10 apply_patch_append apply_patch_Nil apply_diff_bid_level
      arr_get_set_other arr_rebuild)

lemma apply_changed_field:
  "instrument_id r = as \<Longrightarrow> apply_patch ((if as \<noteq> bs then [(''instrument_id'', JString bs)] else []) @ rest) r = apply_patch rest (r\<lparr> instrument_id := bs \<rparr>)"
  "datetime r = as \<Longrightarrow> apply_patch ((if as \<noteq> bs then [(''datetime'', JString bs)] else []) @ rest) r = apply_patch rest (r\<lparr> datetime := bs \<rparr>)"
  "timestamp r = au \<Longrightarrow> apply_patch ((if au \<noteq> bu then [(''timestamp'', JUint64 bu)] else []) @ rest) r = apply_patch rest (r\<lparr> timestamp := bu \<rparr>)"
  "last_price r = ad \<Longrightarrow> apply_patch ((if ad \<noteq> bd then [(''last_price'', JDouble bd)] else []) @ rest) r = apply_patch rest (r\<lparr> last_price := bd \<rparr>)"
  "highest r = ad \<Longrightarrow> apply_patch ((if ad \<noteq> bd then [(''highest'', JDouble bd)] else []) @ rest) r = apply_patch rest (r\<lparr> highest := bd \<rparr>)"
  "lowest r = ad \<Longrightarrow> apply_patch ((if ad \<noteq> bd then [(''lowest'', JDouble bd)] else []) @ rest) r = apply_patch rest (r\<lparr> lowest := bd \<rparr>)"
  "open' r = ad \<Longrightarrow> apply_patch ((if ad \<noteq> bd then [(''open'', JDouble bd)] else []) @ rest) r = apply_patch rest (r\<lparr> open' := bd \<rparr>)"
  "close r = ad \<Longrightarrow> apply_patch ((if ad \<noteq> bd then [(''close'', JDouble bd)] else []) @ rest) r = apply_patch rest (r\<lparr> close := bd \<rparr>)"
  "upper_limit r = ad \<Longrightarrow> apply_patch ((if ad \<noteq> bd then [(''upper_limit'', JDouble bd)] else []) @ rest) r = apply_patch rest (r\<lparr> upper_limit := bd \<rparr>)"
  "lower_limit r = ad \<Longrightarrow> apply_patch ((if ad \<noteq> bd then [(''lower_limit'', JDouble bd)] else []) @ rest) r = apply_patch rest (r\<lparr> lower_limit := bd \<rparr>)"
  "pre_settlement r = ad \<Longrightarrow> apply_patch ((if ad \<noteq> bd then [(''pre_settlement'', JDouble bd)] else []) @ rest) r = apply_patch rest (r\<lparr> pre_settlement := bd \<rparr>)"
  "pre_close r = ad \<Longrightarrow> apply_patch ((if ad \<noteq> bd then [(''pre_close'', JDouble bd)] else []) @ rest) r = apply_patch rest (r\<lparr> pre_close := bd \<rparr>)"
  "settlement r = ad \<Longrightarrow> apply_patch ((if ad \<noteq> bd then [(''settlement'', JDouble bd)] else []) @ rest) r = apply_patch rest (r\<lparr> settlement := bd \<rparr>)"
  "volume r = an \<Longrightarrow> apply_patch ((if an \<noteq> bn then [(''volume'', JInt bn)] else []) @ rest) r = apply_patch rest (r\<lparr> volume := bn \<rparr>)"
  "amount r = ad \<Longrightarrow> apply_patch ((if ad \<noteq> bd then [(''amount'', JDouble bd)] else []) @ rest) r = apply_patch rest (r\<lparr> amount := bd \<rparr>)"
  "open_interest r = au \<Longrightarrow> apply_patch ((if au \<noteq> bu then [(''open_interest'', JInt64 bu)] else []) @ rest) r = apply_patch rest (r\<lparr> open_interest := bu \<rparr>)"
  "pre_open_interest r = au \<Longrightarrow> apply_patch ((if au \<noteq> bu then [(''pre_open_interest'', JInt64 bu)] else []) @ rest) r = apply_patch rest (r\<lparr> pre_open_interest := bu \<rparr>)"
  by (auto simp: apply_patch_Cons patch_field_scalar)

lemma apply_changed_field_last:
  "instrument_id r = as \<Longrightarrow> apply_patch (if as \<noteq> bs then [(''instrument_id'', JString bs)] else []) r = r\<lparr> instrument_id := bs \<rparr>"
  "datetime r = as \<Longrightarrow> apply_patch (if as \<noteq> bs then [(''datetime'', JString bs)] else []) r = r\<lparr> datetime := bs \<rparr>"
  "timestamp r = au \<Longrightarrow> apply_patch (if au \<noteq> bu then [(''timestamp'', JUint64 bu)] else []) r = r\<lparr> timestamp := bu \<rparr>"
  "last_price r = ad \<Longrightarrow> apply_patch (if ad \<noteq> bd then [(''last_price'', JDouble bd)] else []) r = r\<lparr> last_price := bd \<rparr>"
  "highest r = ad \<Longrightarrow> apply_patch (if ad \<noteq> bd then [(''highest'', JDouble bd)] else []) r = r\<lparr> highest := bd \<rparr>"
  "lowest r = ad \<Longrightarrow> apply_patch (if ad \<noteq> bd then [(''lowest'', JDouble bd)] else []) r = r\<lparr> lowest := bd \<rparr>"
  "open' r = ad \<Longrightarrow> apply_patch (if ad \<noteq> bd then [(''open'', JDouble bd)] else []) r = r\<lparr> open' := bd \<rparr>"
  "close r = ad \<Longrightarrow> apply_patch (if ad \<noteq> bd then [(''close'', JDouble bd)] else []) r = r\<lparr> close := bd \<rparr>"
  "upper_limit r = ad \<Longrightarrow> apply_patch (if ad \<noteq> bd then [(''upper_limit'', JDouble bd)] else []) r = r\<lparr> upper_limit := bd \<rparr>"
  "lower_limit r = ad \<Longrightarrow> apply_patch (if ad \<noteq> bd then [(''lower_limit'', JDouble bd)] else []) r = r\<lparr> lower_limit := bd \<rparr>"
  "pre_settlement r = ad \<Longrightarrow> apply_patch (if ad \<noteq> bd then [(''pre_settlement'', JDouble bd)] else []) r = r\<lparr> pre_settlement := bd \<rparr>"
  "pre_close r = ad \<Longrightarrow> apply_patch (if ad \<noteq> bd then [(''pre_close'', JDouble bd)] else []) r = r\<lparr> pre_close := bd \<rparr>"
  "settlement r = ad \<Longrightarrow> apply_patch (if ad \<noteq> bd then [(''settlement'', JDouble bd)] else []) r = r\<lparr> settlement := bd \<rparr>"
  "volume r = an \<Longrightarrow> apply_patch (if an \<noteq> bn then [(''volume'', JInt bn)] else []) r = r\<lparr> volume := bn \<rparr>"
  "amount r = ad \<Longrightarrow> apply_patch (if ad \<noteq> bd then [(''amount'', JDouble bd)] else []) r = r\<lparr> amount := bd \<rparr>"
  "open_interest r = au \<Longrightarrow> apply_patch (if au \<noteq> bu then [(''open_interest'', JInt64 bu)] else []) r = r\<lparr> open_interest := bu \<rparr>"
  "pre_open_interest r = au \<Longrightarrow> apply_patch (if au \<noteq> bu then [(''pre_open_interest'', JInt64 bu)] else []) r = r\<lparr> pre_open_interest := bu \<rparr>"
  by (auto simp: apply_patch_Cons apply_patch_Nil patch_field_scalar)

lemma apply_basic_fields':
  assumes "instrument_id r = instrument_id old_data" and "datetime r = datetime old_data"
    and "timestamp r = timestamp old_data"
  shows "apply_patch (diff_basic_fields old_data new_data) r =
         r\<lparr> instrument_id := instrument_id new_data, datetime := datetime new_data,
            timestamp := timestamp new_data \<rparr>"
  using assms
  by (simp add: diff_basic_fields_def apply_changed_field apply_changed_field_last
      split del: if_split)

lemma apply_price_fields:
  assumes "last_price r = last_price old_data" "highest r = highest old_data"
    "lowest r = lowest old_data" "open' r = open' old_data" "close r = close old_data"
    "upper_limit r = upper_limit old_data" "lower_limit r = lower_limit old_data"
    "pre_settlement r = pre_settlement old_data" "pre_close r = pre_close old_data"
    "settlement r = settlement old_data"
  shows "apply_patch (diff_price_fields old_data new_data) r =
         r\<lparr> last_price := last_price new_data, highest := highest new_data,
            lowest := lowest new_data, open' := open' new_data, close := close new_data,
            upper_limit := upper_limit new_data, lower_limit := lower_limit new_data,
            pre_settlement := pre_settlement new_data, pre_close := pre_close new_data,
            settlement := settlement new_data \<rparr>"
  using assms
  by (simp add: diff_price_fields_def add_price_diff_def apply_changed_field
      apply_changed_field_last split del: if_split)

lemma apply_integer_fields:
  assumes "volume r = volume old_data" "amount r = amount old_data"
    "open_interest r = open_interest old_data" "pre_open_interest r = pre_open_interest old_data"
  shows "apply_patch (diff_integer_fields old_data new_data) r =
         r\<lparr> volume := volume new_data, amount := amount new_data,
            open_interest := open_interest new_data,
            pre_open_interest := pre_open_interest new_data \<rparr>"
  using assms
  by (simp add: diff_integer_fields_def apply_changed_field apply_changed_field_last
      split del: if_split)

lemma patch_diff_members:
  "apply_patch (compute_struct_diff_members old_data new_data) old_data =
   new_data\<lparr> average := average old_data \<rparr>"
  by (simp add: compute_struct_diff_members_def apply_patch_append apply_basic_fields'
      apply_ask_loop apply_bid_loop apply_price_fields apply_integer_fields)

lemma no_changes_eq:
  assumes "\<not> has_struct_changes a b"
  shows "b = a\<lparr> average := average b \<rparr>"
  using assms
  by (cases a, cases b) (simp add: has_struct_changes_def split: if_splits)

lemma first_five_zero_tail:
  assumes "drop 5 (arr_list a) = [0, 0, 0, 0, 0]"
  shows "Arr10 (arr_get a 0) (arr_get a (Suc 0)) (arr_get a 2) (arr_get a 3) (arr_get a 4)
           0 0 0 0 0 = a"
  using assms by (cases a) (simp add: arr_get_def)

lemma patch_full_members:
  assumes "unassigned_fields_zero q"
  shows "apply_patch (struct_to_json_members q) zero_struct = q"
proof -
  have z: "average q = 0" using assms by (simp add: unassigned_fields_zero_def)
  have "apply_patch (struct_to_json_members q) zero_struct =
        zero_struct\<lparr> instrument_id := instrument_id q, datetime := datetime q,
          timestamp := timestamp q, ask_price := ask_price q, ask_volume := ask_volume q,
          bid_price := bid_price q, bid_volume := bid_volume q,
          last_price := last_price q, highest := highest q, lowest := lowest q,
          open' := open' q, close := close q, volume := volume q, amount := amount q,
          open_interest := open_interest q, settlement := settlement q,
          upper_limit := upper_limit q, lower_limit := lower_limit q,
          pre_open_interest := pre_open_interest q, pre_settlement := pre_settlement q,
          pre_close := pre_close q \<rparr>"
    using assms
    by (simp add: struct_to_json_members_def struct_to_json_ask_level_def
        struct_to_json_bid_level_def level_key_simps apply_patch_Cons apply_patch_Nil
        patch_field_scalar patch_field_level patch_field_null zero_struct_def
        unassigned_fields_zero_def first_five_zero_tail)
  also have "\<dots> = q"
    using z by (cases q) (simp add: zero_struct_def)
  finally show ?thesis .
qed

lemma build_unassigned_fields_zero:
  "unassigned_fields_zero (build_market_data_struct tick display cur_time)"
  by (cases tick) (simp_all add: unassigned_fields_zero_def zero_struct_def)

section \<open>Properties of the rounding to a double\<close>

lemma rhe_of_int [simp]: "round_half_even (of_int n) = n"
  by (simp add: round_half_even_def)

lemma rhe_bounds: "y - 1 / 2 \<le> of_int (round_half_even y)" "of_int (round_half_even y) \<le> y + 1 / 2"
  unfolding round_half_even_def Let_def by (auto; linarith)+

lemma rhe_cases:
  "round_half_even y = \<lfloor>y\<rfloor> \<or> round_half_even y = \<lfloor>y\<rfloor> + 1"
  unfolding round_half_even_def Let_def by simp

lemma rhe_mono:
  assumes yz: "y \<le> z"
  shows "round_half_even y \<le> round_half_even z"
proof -
  have fl: "\<lfloor>y\<rfloor> \<le> \<lfloor>z\<rfloor>" using yz by (rule floor_mono)
  show ?thesis
  proof (cases "\<lfloor>y\<rfloor> = \<lfloor>z\<rfloor>")
    case True
    define n where "n = \<lfloor>z\<rfloor>"
    have y: "round_half_even y =
             (if y - of_int n < 1 / 2 then n
              else if 1 / 2 < y - of_int n then n + 1 else if even n then n else n + 1)"
      unfolding round_half_even_def Let_def n_def True ..
    have z: "round_half_even z =
             (if z - of_int n < 1 / 2 then n
              else if 1 / 2 < z - of_int n then n + 1 else if even n then n else n + 1)"
      unfolding round_half_even_def Let_def n_def ..
    show ?thesis
      unfolding y z using yz by (simp split: if_splits)
  next
    case False
    then have "\<lfloor>y\<rfloor> + 1 \<le> \<lfloor>z\<rfloor>" using fl by simp
    moreover have "round_half_even y \<le> \<lfloor>y\<rfloor> + 1"
      using rhe_cases [of y] by linarith
    moreover have "\<lfloor>z\<rfloor> \<le> round_half_even z"
      using rhe_cases [of z] by linarith
    ultimately show ?thesis by linarith
  qed
qed

lemma rhe_ge_int: "of_int n \<le> y \<Longrightarrow> n \<le> round_half_even y"
  using rhe_mono [of "of_int n" y] by simp

lemma rhe_le_int: "y \<le> of_int n \<Longrightarrow> round_half_even y \<le> n"
  using rhe_mono [of y "of_int n"] by simp


lemma bitlen_powi:
  assumes "0 < n"
  shows "(2::real) powi (bitlen n - 1) \<le> of_int n"
    and "of_int n + 1 \<le> (2::real) powi bitlen n"
    and "1 \<le> bitlen n"
proof -
  note b = bitlen_bounds [OF assms]
  show one: "1 \<le> bitlen n"
    using assms by (auto simp: bitlen_alt_def)
  have "(2::real) powi (bitlen n - 1) = 2 ^ nat (bitlen n - 1)"
    using one by (simp add: power_int_nonneg_exp)
  also have "\<dots> = of_int (2 ^ nat (bitlen n - 1))"
    by simp
  also have "\<dots> \<le> of_int n"
    using b by (intro of_int_le_iff [THEN iffD2]) simp
  finally show "(2::real) powi (bitlen n - 1) \<le> of_int n" .
  have "n + 1 \<le> 2 ^ nat (bitlen n)"
    using b by simp
  then have "(of_int (n + 1) :: real) \<le> of_int (2 ^ nat (bitlen n))"
    by (intro of_int_le_iff [THEN iffD2])
  also have "\<dots> = 2 powi bitlen n"
    using one by (simp add: power_int_nonneg_exp)
  finally show "of_int n + 1 \<le> (2::real) powi bitlen n"
    by simp
qed

lemma binade_bounds:
  assumes "2 powi (- 1022) \<le> \<bar>x\<bar>"
  shows "2 powi binade x \<le> \<bar>x\<bar>" and "\<bar>x\<bar> < 2 powi (binade x + 1)"
    and "- 1022 \<le> binade x"
proof -
  define a where "a = \<bar>x\<bar>"
  have a0: "0 < a"
    using assms zero_less_power_int [of "2::real" "- 1022"] unfolding a_def by linarith
  show "- 1022 \<le> binade x"
    by (simp add: binade_def)
  have "2 powi binade x \<le> a \<and> a < 2 powi (binade x + 1)"
  proof (cases "1 \<le> a")
    case True
    define n where "n = \<lfloor>a\<rfloor>"
    have n: "0 < n" "of_int n \<le> a" "a < of_int n + 1"
      using True unfolding n_def by (simp_all add: floor_less_iff)
    note b = bitlen_powi [OF n(1)]
    have e: "binade x = bitlen n - 1"
      using True b(3) unfolding binade_def a_def [symmetric] n_def [symmetric] by simp
    show ?thesis
      unfolding e using b(1,2) n(2,3) by simp
  next
    case False
    define y where "y = 1 / a"
    have y1: "1 < y"
      using False a0 unfolding y_def by simp
    define n where "n = \<lceil>y\<rceil> - 1"
    have n: "0 < n" "of_int n < y" "y \<le> of_int n + 1"
      using y1 unfolding n_def by (simp_all add: less_ceiling_iff) linarith+
    note b = bitlen_powi [OF n(1)]
    have ay: "a = 1 / y"
      unfolding y_def by simp
    have "y \<le> 2 powi 1022"
    proof -
      have "1 / a \<le> 1 / 2 powi (- 1022)"
        using assms a0 unfolding a_def by (intro divide_left_mono) simp_all
      then show ?thesis
        unfolding y_def by (simp add: power_int_minus_divide)
    qed
    then have "of_int n < (2::real) ^ 1022"
      using n(2) by simp
    then have "n < 2 ^ 1022"
      by (metis of_int_less_numeral_power_cancel_iff)
    then have "bitlen n \<le> 1022"
      by (simp add: bitlen_le_iff_power)
    then have e: "binade x = - bitlen n"
      using False unfolding binade_def a_def [symmetric] y_def [symmetric] n_def [symmetric]
      by simp
    have "(2::real) powi (- bitlen n) = 1 / 2 powi bitlen n"
      by (simp add: power_int_minus_divide)
    also have "\<dots> \<le> 1 / y"
      using b(2) n(3) y1 by (intro divide_left_mono) simp_all
    finally have lo: "2 powi (- bitlen n) \<le> a"
      unfolding ay .
    have "1 / y < 1 / (2::real) powi (bitlen n - 1)"
      using b(1) n(2) y1 by (intro divide_strict_left_mono) simp_all
    also have "\<dots> = 2 powi (- bitlen n + 1)"
      by (simp add: power_int_minus_divide [symmetric])
    finally have hi: "a < 2 powi (- bitlen n + 1)"
      unfolding ay .
    show ?thesis
      unfolding e using lo hi by simp
  qed
  then show "2 powi binade x \<le> \<bar>x\<bar>" and "\<bar>x\<bar> < 2 powi (binade x + 1)"
    unfolding a_def by simp_all
qed

lemma powi_less_exp: "(2::real) powi m < 2 powi n \<Longrightarrow> m < n"
  using power_int_increasing [of n m "2::real"] by (cases "m < n") simp_all

lemma binade_unique:
  assumes "2 powi k \<le> \<bar>x\<bar>" and "\<bar>x\<bar> < 2 powi (k + 1)" and "- 1022 \<le> k"
  shows "binade x = k"
proof -
  have "(2::real) powi (- 1022) \<le> 2 powi k"
    using assms(3) by (intro power_int_increasing) simp_all
  then have n: "2 powi (- 1022) \<le> \<bar>x\<bar>"
    using assms(1) by linarith
  note b = binade_bounds [OF n]
  have "(2::real) powi k < 2 powi (binade x + 1)"
    using assms(1) b(2) by linarith
  then have 1: "k < binade x + 1"
    by (rule powi_less_exp)
  have "(2::real) powi binade x < 2 powi (k + 1)"
    using assms(2) b(1) by linarith
  then have 2: "binade x < k + 1"
    by (rule powi_less_exp)
  from 1 2 show ?thesis by simp
qed


lemma to_double_0 [simp]: "to_double 0 = 0"
  by (simp add: to_double_def round_half_even_def)

lemma to_double_in_binade:
  assumes "2 powi k \<le> \<bar>x\<bar>" and "\<bar>x\<bar> < 2 powi (k + 1)" and "- 1022 \<le> k"
  shows "to_double x = of_int (round_half_even (x * 2 powi (52 - k))) * 2 powi (k - 52)"
  unfolding to_double_def binade_unique [OF assms] ..

lemma powi_split: "(2::real) powi a * 2 powi b = 2 powi (a + b)"
  by (simp add: power_int_add)

lemma to_double_range:
  assumes "2 powi k \<le> x" and "x < 2 powi (k + 1)" and "- 1022 \<le> k"
  shows "2 powi k \<le> to_double x" and "to_double x \<le> 2 powi (k + 1)"
proof -
  have x0: "0 < x"
    using assms(1) zero_less_power_int [of "2::real" k] by linarith
  then have ax: "\<bar>x\<bar> = x" by simp
  note td = to_double_in_binade [of k x, unfolded ax, OF assms]
  define y where "y = x * 2 powi (52 - k)"
  have p: "0 < (2::real) powi (52 - k)" by simp
  have "2 powi k * 2 powi (52 - k) \<le> y"
    unfolding y_def using assms(1) p by (intro mult_right_mono) simp_all
  then have "(2::real) ^ 52 \<le> y"
    by (simp add: powi_split)
  then have "of_int (2 ^ 52) \<le> y" by simp
  then have lo: "2 ^ 52 \<le> round_half_even y"
    by (rule rhe_ge_int)
  have "y \<le> 2 powi (k + 1) * 2 powi (52 - k)"
    unfolding y_def using assms(2) p by (intro mult_right_mono) simp_all
  then have "y \<le> (2::real) ^ 53"
    by (simp add: powi_split)
  then have "y \<le> of_int (2 ^ 53)" by simp
  then have hi: "round_half_even y \<le> 2 ^ 53"
    by (rule rhe_le_int)
  have q: "0 < (2::real) powi (k - 52)" by simp
  have "(2::real) powi k = 2 ^ 52 * 2 powi (k - 52)"
    using powi_split [of 52 "k - 52"] by simp
  also have "\<dots> \<le> of_int (round_half_even y) * 2 powi (k - 52)"
    using lo q by (intro mult_right_mono) (simp_all add: numeral_power_le_of_int_cancel_iff)
  finally show "2 powi k \<le> to_double x"
    unfolding td y_def .
  have "of_int (round_half_even y) * 2 powi (k - 52) \<le> 2 ^ 53 * (2::real) powi (k - 52)"
    using hi q by (intro mult_right_mono) (simp_all add: of_int_le_numeral_power_cancel_iff)
  also have "\<dots> = 2 powi (k + 1)"
    using powi_split [of 53 "k - 52"] by (simp add: add.commute)
  finally show "to_double x \<le> 2 powi (k + 1)"
    unfolding td y_def .
qed

lemma to_double_mono:
  assumes "2 powi (- 1022) \<le> x" and "x \<le> y"
  shows "to_double x \<le> to_double y"
proof -
  have x0: "0 < x"
    using assms(1) zero_less_power_int [of "2::real" "- 1022"] by linarith
  then have ax: "\<bar>x\<bar> = x" and ay: "\<bar>y\<bar> = y"
    using assms(2) by simp_all
  note bx = binade_bounds [of x, unfolded ax, OF assms(1)]
  have ny: "2 powi (- 1022) \<le> y" using assms by linarith
  note by' = binade_bounds [of y, unfolded ay, OF ny]
  have "(2::real) powi binade x < 2 powi (binade y + 1)"
    using bx(1) by'(2) assms(2) by linarith
  then have le: "binade x \<le> binade y"
    using powi_less_exp [of "binade x" "binade y + 1"] by simp
  show ?thesis
  proof (cases "binade x = binade y")
    case True
    have "x * 2 powi (52 - binade y) \<le> y * 2 powi (52 - binade y)"
      using assms(2) by (intro mult_right_mono) simp_all
    then have "round_half_even (x * 2 powi (52 - binade y)) \<le>
               round_half_even (y * 2 powi (52 - binade y))"
      by (rule rhe_mono)
    then have "(of_int (round_half_even (x * 2 powi (52 - binade y))) :: real) \<le>
               of_int (round_half_even (y * 2 powi (52 - binade y)))"
      by simp
    then show ?thesis
      unfolding to_double_def True by (intro mult_right_mono) simp_all
  next
    case False
    then have lt: "binade x + 1 \<le> binade y" using le by simp
    have "to_double x \<le> 2 powi (binade x + 1)"
      by (rule to_double_range(2) [OF bx])
    also have "\<dots> \<le> 2 powi binade y"
      using lt by (intro power_int_increasing) simp_all
    also have "\<dots> \<le> to_double y"
      by (rule to_double_range(1) [OF by'])
    finally show ?thesis .
  qed
qed

lemma to_double_exact:
  assumes x: "x = of_int m * 2 powi j" and m: "\<bar>m\<bar> < 2 ^ 53"
    and n: "2 powi (- 1022) \<le> \<bar>x\<bar>"
  shows "to_double x = x"
proof -
  define e where "e = binade x"
  note b = binade_bounds [OF n, folded e_def]
  have "\<bar>x\<bar> = of_int \<bar>m\<bar> * 2 powi j"
    unfolding x by (simp add: abs_mult)
  also have "\<dots> < 2 ^ 53 * 2 powi j"
    using m by (intro mult_strict_right_mono) (simp_all add: of_int_less_numeral_power_cancel_iff)
  also have "\<dots> = 2 powi (53 + j)"
    using powi_split [of 53 j] by simp
  finally have "(2::real) powi e < 2 powi (53 + j)"
    using b(1) by linarith
  then have "e < 53 + j"
    by (rule powi_less_exp)
  then have ge: "0 \<le> j + 52 - e" by simp
  have "x * 2 powi (52 - e) = of_int m * 2 powi (j + (52 - e))"
    unfolding x by (simp add: powi_split)
  also have "\<dots> = of_int m * 2 ^ nat (j + 52 - e)"
    using ge by (simp add: power_int_nonneg_exp algebra_simps)
  also have "\<dots> = of_int (m * 2 ^ nat (j + 52 - e))"
    by simp
  finally have sc: "x * 2 powi (52 - e) = of_int (m * 2 ^ nat (j + 52 - e))" .
  have "to_double x = of_int (m * 2 ^ nat (j + 52 - e)) * 2 powi (e - 52)"
    by (simp only: to_double_def e_def [symmetric] sc rhe_of_int)
  also have "\<dots> = x * 2 powi (52 - e) * 2 powi (e - 52)"
    unfolding sc ..
  also have "\<dots> = x"
    by (simp add: mult.assoc powi_split)
  finally show ?thesis .
qed

lemma powi_neg_le_one: "(2::real) powi (- 1022) \<le> 1"
  using power_int_increasing [of "- 1022" 0 "2::real"] by simp

lemma to_double_exact_ge1:
  assumes "x = of_int m * 2 powi j" and "\<bar>m\<bar> < 2 ^ 53" and "1 \<le> \<bar>x\<bar>"
  shows "to_double x = x"
  using to_double_exact [OF assms(1,2)] assms(3) powi_neg_le_one by linarith

lemma to_double_int:
  assumes "\<bar>m\<bar> < 2 ^ 53" and "m \<noteq> 0"
  shows "to_double (of_int m) = of_int m"
proof -
  have "1 \<le> \<bar>m\<bar>"
    using assms(2) by simp
  then have "(1::real) \<le> of_int \<bar>m\<bar>"
    by (simp only: of_int_1_le_iff)
  then have "1 \<le> \<bar>of_int m :: real\<bar>"
    by simp
  then show ?thesis
    using to_double_exact_ge1 [of "of_int m" m 0] assms(1) by simp
qed

section \<open>Properties of the stored price\<close>

lemma to_double_pos:
  assumes "2 powi (- 1022) \<le> x"
  shows "0 < to_double x"
proof -
  have x0: "0 < x"
    using assms zero_less_power_int [of "2::real" "- 1022"] by linarith
  then have ax: "\<bar>x\<bar> = x" by simp
  note b = binade_bounds [of x, unfolded ax, OF assms]
  have "0 < (2::real) powi binade x" by simp
  also have "\<dots> \<le> to_double x"
    by (rule to_double_range(1) [OF b])
  finally show ?thesis .
qed

lemma powi_normal: "- 1022 \<le> k \<Longrightarrow> (2::real) powi (- 1022) \<le> 2 powi k"
  by (intro power_int_increasing) simp_all

lemma to_double_powi:
  assumes "- 1022 \<le> k"
  shows "to_double (2 powi k) = 2 powi k"
  using to_double_exact [of "2 powi k" 1 k] powi_normal [OF assms] by simp

lemma literal_1e_6: "2 powi (- 20) \<le> to_double (1 / 10 ^ 6)" "to_double (1 / 10 ^ 6) \<le> 2 powi (- 19)"
  using to_double_range [of "- 20" "1 / 10 ^ 6"] by simp_all

lemma literal_1e300: "2 powi 996 \<le> to_double (10 ^ 300)" "to_double (10 ^ 300) \<le> 2 powi 997"
  using to_double_range [of 996 "10 ^ 300"] by simp_all


lemma literal_1e_6_small: "0 < to_double (1 / 10 ^ 6)" "to_double (1 / 10 ^ 6) < 1 / 1000"
proof -
  have "0 < (2::real) powi (- 20)" by simp
  then show "0 < to_double (1 / 10 ^ 6)"
    using literal_1e_6(1) by linarith
  have "(2::real) powi (- 19) < 1 / 1000" by simp
  then show "to_double (1 / 10 ^ 6) < 1 / 1000"
    using literal_1e_6(2) by linarith
qed

lemma literal_1e300_large: "2 ^ 20 < to_double (10 ^ 300)"
proof -
  have "(2::real) powi 20 < 2 powi 996"
    by (intro power_int_strict_increasing) simp_all
  then show ?thesis
    using literal_1e300(1) by simp
qed

lemma price_is_valid_mid: "1 / 1000 \<le> v \<Longrightarrow> v \<le> 2 ^ 20 \<Longrightarrow> price_is_valid v"
  using literal_1e_6_small(2) literal_1e300_large by (simp add: price_is_valid_def)

lemma price_is_valid_nonpos: "v \<le> 0 \<Longrightarrow> \<not> price_is_valid v"
  using literal_1e_6_small(1) by (simp add: price_is_valid_def)

lemma c_round_small: "0 \<le> t \<Longrightarrow> t < 1 / 2 \<Longrightarrow> c_round t = 0"
  by (simp add: c_round_def floor_eq_iff)

lemma c_round_ge_one: "1 / 2 \<le> t \<Longrightarrow> 1 \<le> c_round t"
proof -
  assume "1 / 2 \<le> t"
  then have "1 \<le> \<lfloor>t + 1 / 2\<rfloor>"
    by (simp add: le_floor_iff)
  then have "(1::real) \<le> of_int \<lfloor>t + 1 / 2\<rfloor>"
    by (simp only: of_int_1_le_iff)
  then show ?thesis
    using \<open>1 / 2 \<le> t\<close> by (simp add: c_round_def)
qed

lemma product_below_half:
  assumes d: "to_double v = v" and lo: "2 powi (- 20) \<le> v" and hi: "v < 5 / 1000"
  shows "to_double (v * 100) < 1 / 2"
proof -
  have v0: "0 < v"
    using lo zero_less_power_int [of "2::real" "- 20"] by linarith
  have n: "2 powi (- 1022) \<le> v * 100"
  proof -
    have "(2::real) powi (- 1022) \<le> 2 powi (- 20)"
      by (rule powi_normal) simp
    then show ?thesis using lo v0 by linarith
  qed
  show ?thesis
  proof (cases "v < 2 powi (- 8)")
    case True
    then have "v * 100 \<le> 25 / 64" by simp
    then have "to_double (v * 100) \<le> to_double (25 / 64)"
      by (rule to_double_mono [OF n])
    also have "to_double (25 / 64) = 25 / 64"
      using to_double_exact [of "25 / 64" 25 "- 6"] powi_normal [of "- 2"] by simp
    finally show ?thesis by simp
  next
    case False
    then have b8: "2 powi (- 8) \<le> \<bar>v\<bar>" "\<bar>v\<bar> < 2 powi (- 8 + 1)"
      using hi v0 by simp_all
    define m where "m = round_half_even (v * 2 powi (52 - (- 8)))"
    have "to_double v = of_int m * 2 powi (- 8 - 52)"
      unfolding m_def by (rule to_double_in_binade [OF b8]) simp
    then have vm: "v = of_int m / 2 ^ 60"
      using d by (simp add: power_int_minus_divide)
    have "of_int m < (5764607523034235 :: real)"
      using hi unfolding vm by simp
    then have "m < 5764607523034235"
      by (simp only: of_int_less_numeral_iff)
    then have "m \<le> 5764607523034234" by simp
    then have "(of_int m :: real) \<le> 5764607523034234"
      by (simp only: of_int_le_numeral_iff)
    then have "v * 100 \<le> 9007199254740991 / 2 ^ 54"
      unfolding vm by simp
    then have "to_double (v * 100) \<le> to_double (9007199254740991 / 2 ^ 54)"
      by (rule to_double_mono [OF n])
    also have "to_double (9007199254740991 / 2 ^ 54) = 9007199254740991 / 2 ^ 54"
      using to_double_exact [of "9007199254740991 / 2 ^ 54" 9007199254740991 "- 54"]
        powi_normal [of "- 2"]
      by (simp add: power_int_minus_divide)
    finally show ?thesis by simp
  qed
qed

lemma stored_price_zero_iff:
  assumes d: "to_double v = v"
  shows "stored_price v = 0 \<longleftrightarrow> v < 5 / 1000 \<or> to_double (10 ^ 300) \<le> v"
proof (cases "price_is_valid v")
  case False
  then have "v \<le> to_double (1 / 10 ^ 6) \<or> to_double (10 ^ 300) \<le> v"
    by (auto simp: price_is_valid_def)
  then have "v < 5 / 1000 \<or> to_double (10 ^ 300) \<le> v"
    using literal_1e_6_small(2) by auto
  then show ?thesis
    using False by (simp add: stored_price_def)
next
  case True
  then have lo: "2 powi (- 20) \<le> v" and hi: "v < to_double (10 ^ 300)"
    using literal_1e_6(1) by (auto simp: price_is_valid_def)
  have v0: "0 < v"
    using lo zero_less_power_int [of "2::real" "- 20"] by linarith
  have n: "2 powi (- 1022) \<le> v * 100"
  proof -
    have "(2::real) powi (- 1022) \<le> 2 powi (- 20)"
      by (rule powi_normal) simp
    then show ?thesis using lo v0 by linarith
  qed
  show ?thesis
  proof (cases "v < 5 / 1000")
    case True
    have "to_double (v * 100) < 1 / 2"
      by (rule product_below_half [OF d lo True])
    moreover have "0 \<le> to_double (v * 100)"
      using to_double_pos [OF n] by simp
    ultimately have "c_round (to_double (v * 100)) = 0"
      by (intro c_round_small)
    then show ?thesis
      using True \<open>price_is_valid v\<close> by (simp add: stored_price_def)
  next
    case False
    have half: "to_double (1 / 2) = 1 / 2"
      using to_double_powi [of "- 1"] by (simp add: power_int_minus_divide)
    have "to_double (1 / 2) \<le> to_double (v * 100)"
      using False powi_normal [of "- 1"]
      by (intro to_double_mono) (simp_all add: power_int_minus_divide)
    then have "1 \<le> c_round (to_double (v * 100))"
      unfolding half by (rule c_round_ge_one)
    then have "2 powi (- 7) \<le> c_round (to_double (v * 100)) / 100"
      by (simp add: power_int_minus_divide)
    moreover have "(2::real) powi (- 1022) \<le> 2 powi (- 7)"
      by (rule powi_normal) simp
    ultimately have "2 powi (- 1022) \<le> c_round (to_double (v * 100)) / 100"
      by linarith
    then have "0 < to_double (c_round (to_double (v * 100)) / 100)"
      by (rule to_double_pos)
    then show ?thesis
      using False hi \<open>price_is_valid v\<close> by (simp add: stored_price_def)
  qed
qed

lemma stored_price_cents:
  assumes "to_double v = v" and "v * 100 = of_int n" and "0 < n" and "n < 2 ^ 53"
    and "1 / 1000 \<le> v" and "v \<le> 2 ^ 20"
  shows "stored_price v = v"
proof -
  have "to_double (v * 100) = of_int n"
    unfolding assms(2) using assms(3,4) by (intro to_double_int) simp_all
  moreover have "c_round (of_int n) = of_int n"
    using assms(3) by (simp add: c_round_def)
  moreover have "of_int n / 100 = v"
    using assms(2) by simp
  ultimately show ?thesis
    using price_is_valid_mid [OF assms(5,6)] assms(1) by (simp add: stored_price_def)
qed

text \<open>The double nearest to 101.115, and the double nearest to 2.675.\<close>

lemma stored_price_101_115:
  "stored_price (7115335567524495 / 2 ^ 46) = 889460926405673 / 2 ^ 43"
proof -
  have g: "price_is_valid (7115335567524495 / 2 ^ 46)"
    by (rule price_is_valid_mid) simp_all
  have p: "to_double (7115335567524495 / 2 ^ 46 * 100) = 20223 / 2"
    by (subst to_double_in_binade [of 13]) (simp_all add: round_half_even_def)
  have r: "c_round (20223 / 2) = 10112"
    by (simp add: c_round_def)
  have q: "to_double (10112 / 100) = 889460926405673 / 2 ^ 43"
    by (subst to_double_in_binade [of 6]) (simp_all add: round_half_even_def)
  show ?thesis
    using g by (simp only: stored_price_def p r q if_True)
qed

lemma stored_price_2_675:
  "stored_price (3011782250804019 / 2 ^ 50) = 6034823500676465 / 2 ^ 51"
proof -
  have g: "price_is_valid (3011782250804019 / 2 ^ 50)"
    by (rule price_is_valid_mid) simp_all
  have p: "to_double (3011782250804019 / 2 ^ 50 * 100) = 535 / 2"
    by (subst to_double_in_binade [of 8]) (simp_all add: round_half_even_def)
  have r: "c_round (535 / 2) = 268"
    by (simp add: c_round_def)
  have q: "to_double (268 / 100) = 6034823500676465 / 2 ^ 51"
    by (subst to_double_in_binade [of 1]) (simp_all add: round_half_even_def)
  show ?thesis
    using g by (simp only: stored_price_def p r q if_True)
qed


lemma to_double_error:
  assumes "2 powi (- 1022) \<le> x"
  shows "\<bar>to_double x - x\<bar> \<le> x / 2 ^ 53"
proof -
  have x0: "0 < x"
    using assms zero_less_power_int [of "2::real" "- 1022"] by linarith
  then have ax: "\<bar>x\<bar> = x" by simp
  define e where "e = binade x"
  note b = binade_bounds [of x, unfolded ax, OF assms, folded e_def]
  define y where "y = x * 2 powi (52 - e)"
  have xy: "x = y * 2 powi (e - 52)"
    unfolding y_def by (simp add: mult.assoc powi_split)
  have td: "to_double x = of_int (round_half_even y) * 2 powi (e - 52)"
    unfolding to_double_def e_def y_def ..
  have "\<bar>of_int (round_half_even y) - y\<bar> \<le> 1 / 2"
    using rhe_bounds [of y] by linarith
  then have "\<bar>of_int (round_half_even y) - y\<bar> * 2 powi (e - 52) \<le> 1 / 2 * 2 powi (e - 52)"
    by (intro mult_right_mono) simp_all
  moreover have "to_double x - x = (of_int (round_half_even y) - y) * 2 powi (e - 52)"
  proof -
    have "to_double x - x =
          of_int (round_half_even y) * 2 powi (e - 52) - y * 2 powi (e - 52)"
      unfolding td by (simp add: xy [symmetric])
    then show ?thesis by (simp add: algebra_simps)
  qed
  ultimately have "\<bar>to_double x - x\<bar> \<le> 1 / 2 * 2 powi (e - 52)"
    by (simp add: abs_mult)
  also have "1 / 2 * (2::real) powi (e - 52) = 2 powi e / 2 ^ 53"
    using powi_split [of "e - 53" 53] powi_split [of "e - 53" 1] by simp
  also have "\<dots> \<le> x / 2 ^ 53"
    using b(1) by (intro divide_right_mono) simp_all
  finally show ?thesis .
qed

lemma c_round_error:
  assumes "0 \<le> t"
  shows "\<bar>c_round t - t\<bar> \<le> 1 / 2"
proof -
  have c: "c_round t = of_int \<lfloor>t + 1 / 2\<rfloor>"
    using assms by (simp add: c_round_def)
  have "of_int \<lfloor>t + 1 / 2\<rfloor> \<le> t + 1 / 2"
    by (rule of_int_floor_le)
  moreover have "t + 1 / 2 < of_int \<lfloor>t + 1 / 2\<rfloor> + 1"
    by (rule real_of_int_floor_add_one_gt)
  ultimately show ?thesis
    unfolding c by linarith
qed

lemma c_round_nonneg: "0 \<le> t \<Longrightarrow> 0 \<le> c_round t"
  unfolding c_round_def by simp

lemma c_round_int: "0 \<le> t \<Longrightarrow> c_round t = of_int \<lfloor>t + 1 / 2\<rfloor>"
  unfolding c_round_def by simp

lemma stored_price_accuracy:
  assumes "price_is_valid v"
  shows "\<bar>stored_price v - v\<bar> \<le> 1 / 200 + (v + 1) / 2 ^ 51"
proof -
  have lo: "2 powi (- 20) \<le> v"
    using assms literal_1e_6(1) by (auto simp: price_is_valid_def)
  have v0: "0 < v"
    using lo zero_less_power_int [of "2::real" "- 20"] by linarith
  have n: "2 powi (- 1022) \<le> v * 100"
  proof -
    have "(2::real) powi (- 1022) \<le> 2 powi (- 20)"
      by (rule powi_normal) simp
    then show ?thesis using lo v0 by linarith
  qed
  define t where "t = to_double (v * 100)"
  define k where "k = c_round t"
  define s where "s = to_double (k / 100)"
  have sp: "stored_price v = s"
    using assms by (simp add: stored_price_def s_def k_def t_def)
  have t0: "0 \<le> t"
    unfolding t_def using to_double_pos [OF n] by simp
  have e1: "\<bar>t - v * 100\<bar> \<le> v * 100 / 2 ^ 53"
    unfolding t_def by (rule to_double_error [OF n])
  have e2: "\<bar>k - t\<bar> \<le> 1 / 2"
    unfolding k_def by (rule c_round_error [OF t0])
  have k0: "0 \<le> k"
    unfolding k_def by (rule c_round_nonneg [OF t0])
  have e3: "\<bar>s - k / 100\<bar> \<le> k / 100 / 2 ^ 53"
  proof (cases "k = 0")
    case True
    then show ?thesis by (simp add: s_def)
  next
    case False
    define f where "f = \<lfloor>t + 1 / 2\<rfloor>"
    have kf: "k = of_int f"
      unfolding k_def f_def by (rule c_round_int [OF t0])
    have "0 \<le> f"
      unfolding f_def using t0 by simp
    moreover have "f \<noteq> 0"
      using False kf by auto
    ultimately have "1 \<le> f" by linarith
    then have "(1::real) \<le> of_int f"
      by (simp only: of_int_1_le_iff)
    then have k1: "1 \<le> k"
      using kf by simp
    have "(2::real) powi (- 1022) \<le> 2 powi (- 7)"
      by (rule powi_normal) simp
    moreover have "2 powi (- 7) \<le> k / 100"
      using k1 by (simp add: power_int_minus_divide)
    ultimately have "2 powi (- 1022) \<le> k / 100"
      by linarith
    then show ?thesis
      unfolding s_def by (rule to_double_error)
  qed
  have kb: "k \<le> v * 100 + v * 100 / 2 ^ 53 + 1 / 2"
    using e1 e2 by linarith
  have "s - v = (s - k / 100) + (k - t) / 100 + (t - v * 100) / 100"
    by (simp add: field_simps)
  then have "\<bar>s - v\<bar> \<le> \<bar>s - k / 100\<bar> + \<bar>(k - t) / 100\<bar> + \<bar>(t - v * 100) / 100\<bar>"
    by linarith
  then have "\<bar>s - v\<bar> \<le> \<bar>s - k / 100\<bar> + \<bar>k - t\<bar> / 100 + \<bar>t - v * 100\<bar> / 100"
    by simp
  also have "\<bar>s - k / 100\<bar> + \<bar>k - t\<bar> / 100 + \<bar>t - v * 100\<bar> / 100 \<le>
             k / 100 / 2 ^ 53 + 1 / 2 / 100 + v * 100 / 2 ^ 53 / 100"
    using e1 e2 e3 by (intro add_mono divide_right_mono) simp_all
  also have "\<dots> \<le> 1 / 200 + (v + 1) / 2 ^ 51"
    using kb v0 by (simp add: field_simps)
  finally show ?thesis
    unfolding sp .
qed

section \<open>Properties of the scenario run\<close>

lemma seqlock_read_even:
  assumes "sequence entry mod 2 = 0"
  shows "seqlock_read entry seqlock_init =
         \<lparr> seq_start = sequence entry, seq_end = sequence entry,
           data_snapshot = data entry, retries = 1 \<rparr>"
  using assms
  by (subst seqlock_read.simps) (simp add: seqlock_init_def Let_def)

lemma stored_price_simps:
  "stored_price 0 = 0" "stored_price 3850 = 3850" "stored_price 3849 = 3849"
  "stored_price 3851 = 3851" "stored_price 3850.5 = 3850.5"
proof -
  show "stored_price 0 = 0"
    using price_is_valid_nonpos [of 0] by (simp add: stored_price_def)
  show "stored_price 3850 = 3850"
    using stored_price_cents [of 3850 385000] to_double_int [of 3850] by simp
  show "stored_price 3849 = 3849"
    using stored_price_cents [of 3849 384900] to_double_int [of 3849] by simp
  show "stored_price 3851 = 3851"
    using stored_price_cents [of 3851 385100] to_double_int [of 3851] by simp
  show "stored_price 3850.5 = 3850.5"
    using stored_price_cents [of "3850.5" 385050]
      to_double_exact_ge1 [of "3850.5" 7701 "- 1"] by simp
qed

lemma stored_level_volume_simps:
  "stored_level_volume 0 n = 0" "stored_level_volume 3849 n = n" "stored_level_volume 3851 n = n"
  using price_is_valid_nonpos [of 0] price_is_valid_mid [of 3849] price_is_valid_mid [of 3851]
  by (simp_all add: stored_level_volume_def)

lemma tick_S1_sel:
  "TradingDay tick_S1 = []"
  "InstrumentID tick_S1 = ''rb2501''"
  "UpdateTime tick_S1 = []"
  "UpdateMillisec tick_S1 = 0"
  "AskPrice1 tick_S1 = 3851"
  "AskVolume1 tick_S1 = 50"
  "AskPrice2 tick_S1 = 0"
  "AskVolume2 tick_S1 = 0"
  "AskPrice3 tick_S1 = 0"
  "AskVolume3 tick_S1 = 0"
  "AskPrice4 tick_S1 = 0"
  "AskVolume4 tick_S1 = 0"
  "AskPrice5 tick_S1 = 0"
  "AskVolume5 tick_S1 = 0"
  "BidPrice1 tick_S1 = 3849"
  "BidVolume1 tick_S1 = 100"
  "BidPrice2 tick_S1 = 0"
  "BidVolume2 tick_S1 = 0"
  "BidPrice3 tick_S1 = 0"
  "BidVolume3 tick_S1 = 0"
  "BidPrice4 tick_S1 = 0"
  "BidVolume4 tick_S1 = 0"
  "BidPrice5 tick_S1 = 0"
  "BidVolume5 tick_S1 = 0"
  "LastPrice tick_S1 = 3850"
  "HighestPrice tick_S1 = 0"
  "LowestPrice tick_S1 = 0"
  "OpenPrice tick_S1 = 0"
  "ClosePrice tick_S1 = 0"
  "Volume tick_S1 = 10000"
  "Turnover tick_S1 = 0"
  "OpenInterest tick_S1 = 0"
  "SettlementPrice tick_S1 = 0"
  "UpperLimitPrice tick_S1 = 0"
  "LowerLimitPrice tick_S1 = 0"
  "PreOpenInterest tick_S1 = 0"
  "PreSettlementPrice tick_S1 = 0"
  "PreClosePrice tick_S1 = 0"
  by (simp_all add: tick_S1_def zero_tick_def)

lemma tick_S2_sel:
  "TradingDay tick_S2 = []"
  "InstrumentID tick_S2 = ''rb2501''"
  "UpdateTime tick_S2 = []"
  "UpdateMillisec tick_S2 = 0"
  "AskPrice1 tick_S2 = 3851"
  "AskVolume1 tick_S2 = 50"
  "AskPrice2 tick_S2 = 0"
  "AskVolume2 tick_S2 = 0"
  "AskPrice3 tick_S2 = 0"
  "AskVolume3 tick_S2 = 0"
  "AskPrice4 tick_S2 = 0"
  "AskVolume4 tick_S2 = 0"
  "AskPrice5 tick_S2 = 0"
  "AskVolume5 tick_S2 = 0"
  "BidPrice1 tick_S2 = 3849"
  "BidVolume1 tick_S2 = 100"
  "BidPrice2 tick_S2 = 0"
  "BidVolume2 tick_S2 = 0"
  "BidPrice3 tick_S2 = 0"
  "BidVolume3 tick_S2 = 0"
  "BidPrice4 tick_S2 = 0"
  "BidVolume4 tick_S2 = 0"
  "BidPrice5 tick_S2 = 0"
  "BidVolume5 tick_S2 = 0"
  "LastPrice tick_S2 = 3850.5"
  "HighestPrice tick_S2 = 0"
  "LowestPrice tick_S2 = 0"
  "OpenPrice tick_S2 = 0"
  "ClosePrice tick_S2 = 0"
  "Volume tick_S2 = 10001"
  "Turnover tick_S2 = 0"
  "OpenInterest tick_S2 = 0"
  "SettlementPrice tick_S2 = 0"
  "UpperLimitPrice tick_S2 = 0"
  "LowerLimitPrice tick_S2 = 0"
  "PreOpenInterest tick_S2 = 0"
  "PreSettlementPrice tick_S2 = 0"
  "PreClosePrice tick_S2 = 0"
  by (simp_all add: tick_S2_def tick_S1_sel)

lemma build_datetime_empty: "build_datetime [] [] ms = []"
  by (simp add: build_datetime_def c_str_def c_at_def is_digit_def)

lemma double_to_int64_0: "double_to_int64 0 = 0"
  by (simp add: double_to_int64_def)

lemma c_str_display: "take 31 (c_str ''SHFE.rb2501'') = ''SHFE.rb2501''"
  by (simp add: c_str_def)

lemma build_S1: "build_market_data_struct (Some tick_S1) ''SHFE.rb2501'' t = quote_S1 t"
  unfolding build_market_data_struct.simps tick_S1_sel quote_S1_def
  by (simp only: stored_price_simps stored_level_volume_simps build_datetime_empty
      double_to_int64_0 c_str_display)

lemma build_S2: "build_market_data_struct (Some tick_S2) ''SHFE.rb2501'' t = quote_S2 t"
  unfolding build_market_data_struct.simps tick_S2_sel quote_S2_def
  by (simp only: stored_price_simps stored_level_volume_simps build_datetime_empty
      double_to_int64_0 c_str_display)

lemma diff_S1_S2:
  "compute_struct_diff_members (quote_S1 t1) (quote_S2 t2) =
   (if t1 \<noteq> t2 then [(''timestamp'', JUint64 t2)] else [])
   @ [(''last_price'', JDouble 3850.5), (''volume'', JInt 10001)]"
  by (simp add: compute_struct_diff_members_def quote_S1_def quote_S2_def
      diff_basic_fields_def diff_ask_level_def diff_bid_level_def diff_price_fields_def
      diff_integer_fields_def add_price_diff_def arr_get_def)

lemma changes_S1_S2: "has_struct_changes (quote_S1 t1) (quote_S2 t2)"
  by (simp add: has_struct_changes_def quote_S1_def quote_S2_def)

lemmas peek_defs =
  OnRtnDepthMarketData_def cache_market_data_def get_or_create_index_def
  handle_peek_message_def collect_market_data_updates_def collect_one_def get_index_def
  send_full_snapshot_def send_diff_snapshot_def send_message_def update_session_state_def
  diff_instruments_of_def diff_quote_of_def diff_snapshot_frame_def frame_key_def
  List.map_filter_def empty_entry_def

lemma step_A:
  assumes "0 < n"
  shows "OnRtnDepthMarketData (scenario_start n) (Some tick_S1) t1 = state_A n t1"
  using assms
  by (simp add: state_A_def scenario_start_def MarketDataServer_new_def peek_defs
      tick_S1_sel build_S1 Let_def del: build_market_data_struct.simps)

lemma step_B:
  assumes "0 < n"
  shows "handle_peek_message (state_A n t1) ''s1'' = state_B n t1"
  using assms
  by (simp add: state_B_def state_A_def snap_S1_def scenario_start_def MarketDataServer_new_def
      peek_defs seqlock_read_even Let_def del: seqlock_read.simps)

lemma step_C:
  assumes "0 < n"
  shows "OnRtnDepthMarketData (state_B n t1) (Some tick_S2) t2 = state_C n t1 t2"
  using assms
  by (simp add: state_C_def state_B_def state_A_def scenario_start_def MarketDataServer_new_def
      peek_defs tick_S2_sel build_S2 Let_def del: build_market_data_struct.simps)

lemma step_D:
  assumes "0 < n"
  shows "frames_sent (handle_peek_message (state_C n t1 t2) ''s1'') ''s1'' =
         [full_snapshot_frame [(''rb2501'', snap_S1 t1)],
          rtn_data_frame
            [(''SHFE.rb2501'',
              JObject ((if t1 \<noteq> t2 then [(''timestamp'', JUint64 t2)] else [])
                       @ [(''last_price'', JDouble 3850.5), (''volume'', JInt 10001)]))]]"
  using assms
  by (simp add: frames_sent_def state_C_def state_B_def state_A_def scenario_start_def
      MarketDataServer_new_def peek_defs seqlock_read_even Let_def changes_S1_S2
      compute_struct_diff_def diff_S1_S2 del: seqlock_read.simps)

lemma scenario_S2_frames:
  assumes "0 < n"
  shows "frames_sent (scenario_S2 n t1 t2) ''s1'' =
         [full_snapshot_frame [(''rb2501'', snap_S1 t1)],
          rtn_data_frame
            [(''SHFE.rb2501'',
              JObject ((if t1 \<noteq> t2 then [(''timestamp'', JUint64 t2)] else [])
                       @ [(''last_price'', JDouble 3850.5), (''volume'', JInt 10001)]))]]"
  using assms
  by (simp add: scenario_S2_def scenario_S1_def step_A step_B step_C step_D)

section \<open>The diff engine and the average field\<close>

lemma frame_quotes_rtn_data: "frame_quotes (rtn_data_frame quotes) = quotes"
  by (simp add: frame_quotes_def rtn_data_frame_def json_get_def json_members_def)

lemma full_members_average_null:
  "list_all (\<lambda>m. fst m = ''average'' \<longrightarrow> snd m = JNull) (struct_to_json_members d)"
  by (simp add: struct_to_json_members_def struct_to_json_ask_level_def
      struct_to_json_bid_level_def level_key_simps)

lemma diff_quote_average_null:
  assumes "m \<in> set (json_members (snd (diff_quote_of last_snapshots entry)))"
    and "fst m = ''average''"
  shows "snd m = JNull"
proof (cases "map_of last_snapshots (fst entry)")
  case None
  then have "m \<in> set (struct_to_json_members (snap_data (snd entry)))"
    using assms(1) by (simp add: diff_quote_of_def struct_to_json_def json_members_def)
  then show ?thesis
    using full_members_average_null [of "snap_data (snd entry)"] assms(2)
    by (auto simp: list_all_iff)
next
  case (Some old_data)
  then have "m \<in> set (compute_struct_diff_members old_data (snap_data (snd entry)))"
    using assms(1) by (simp add: diff_quote_of_def compute_struct_diff_def json_members_def)
  then show ?thesis
    using assms(2) diff_members_no_average [of old_data "snap_data (snd entry)"]
    by force
qed

text \<open>
  Claim C10, as the code has it. Two quote records that differ only in \<open>average\<close> are
  equal for \<open>has_struct_changes\<close> and give the empty diff object; no diff object
  written by \<open>compute_struct_diff\<close> has an \<open>average\<close> member; the full form always
  has \<open>average\<close> as null. A DIFF frame can carry \<open>average\<close>, but only as null: it
  writes an instrument without a last record in full.
\<close>

theorem diff_engine_ignores_average:
  "\<not> has_struct_changes old_data (old_data\<lparr> average := a \<rparr>) \<and>
   compute_struct_diff old_data (old_data\<lparr> average := a \<rparr>) = JObject [] \<and>
   ''average'' \<notin> fst ` set (json_members (compute_struct_diff old_data new_data)) \<and>
   json_get ''average'' (struct_to_json d) = Some JNull \<and>
   (\<forall>q \<in> set (frame_quotes (diff_snapshot_frame updates last_snapshots)).
      \<forall>m \<in> set (json_members (snd q)). fst m = ''average'' \<longrightarrow> snd m = JNull)"
proof -
  have "\<forall>q \<in> set (frame_quotes (diff_snapshot_frame updates last_snapshots)).
          \<forall>m \<in> set (json_members (snd q)). fst m = ''average'' \<longrightarrow> snd m = JNull"
    using diff_quote_average_null
    by (auto simp: diff_snapshot_frame_def frame_quotes_rtn_data)
  then show ?thesis
    using diff_average_only [of old_data a] diff_members_no_average [of old_data new_data]
      full_average_null [of d]
    by (simp add: compute_struct_diff_def struct_to_json_def json_members_def json_get_def)
qed

theorem diff_engine_ignores_average_witness:
  "(''b'', struct_to_json zero_struct)
     \<in> set (frame_quotes (diff_snapshot_frame
          [(''b'', \<lparr> snap_data = zero_struct, display_instrument = None, version = 1,
                    snap_has_data = True \<rparr>)]
          [(''a'', zero_struct)])) \<and>
   (''average'', JNull) \<in> set (json_members (struct_to_json zero_struct)) \<and>
   \<not> has_struct_changes zero_struct (zero_struct\<lparr> average := 1 \<rparr>) \<and>
   compute_struct_diff zero_struct (zero_struct\<lparr> average := 1 \<rparr>) = JObject []"
  using diff_engine_ignores_average [of zero_struct 1 zero_struct zero_struct
      "[(''b'', \<lparr> snap_data = zero_struct, display_instrument = None, version = 1,
                 snap_has_data = True \<rparr>)]" "[(''a'', zero_struct)]"]
  by (simp add: diff_snapshot_frame_def frame_quotes_rtn_data diff_instruments_of_def
      diff_quote_of_def frame_key_def struct_to_json_def json_members_def
      struct_to_json_members_def)

text \<open>
  Claim C10 as stated fails in its last part: a DIFF frame for a session that
  already has a last record of \<open>a\<close> and now receives \<open>b\<close> for the first time has an
  \<open>average\<close> member in the quote of \<open>b\<close>.
\<close>

theorem diff_frame_average_counterexample:
  "''average'' \<in> fst ` set (json_members (snd (hd (frame_quotes (diff_snapshot_frame
       [(''b'', \<lparr> snap_data = zero_struct, display_instrument = None, version = 1,
                 snap_has_data = True \<rparr>)]
       [(''a'', zero_struct)])))))"
  by (simp add: diff_snapshot_frame_def frame_quotes_rtn_data diff_instruments_of_def
      diff_quote_of_def frame_key_def struct_to_json_def json_members_def
      struct_to_json_members_def)

section \<open>The price-validity filter\<close>

text \<open>
  Claim C4, as the code has it. Every price field of the built record is
  \<open>stored_price\<close> of the upstream value \<open>v\<close>. It is 0 whenever \<open>v \<le> 1e-6\<close> or
  \<open>v \<ge> 1e300\<close>, so for every value that is not positive, whatever its magnitude.
  Otherwise it is \<open>round(v * 100.0) / 100.0\<close> in double arithmetic, which lies
  within half a hundredth of \<open>v\<close> up to the two roundings. For a double \<open>v\<close> the
  stored value is 0 exactly when \<open>v < 0.005\<close> or \<open>v \<ge> 1e300\<close>.
\<close>

theorem price_validity_filter:
  "(let q = build_market_data_struct (Some t) display cur_time in
      last_price q = stored_price (LastPrice t) \<and>
      highest q = stored_price (HighestPrice t) \<and>
      lowest q = stored_price (LowestPrice t) \<and>
      open' q = stored_price (OpenPrice t) \<and>
      close q = stored_price (ClosePrice t) \<and>
      settlement q = stored_price (SettlementPrice t) \<and>
      upper_limit q = stored_price (UpperLimitPrice t) \<and>
      lower_limit q = stored_price (LowerLimitPrice t) \<and>
      pre_settlement q = stored_price (PreSettlementPrice t) \<and>
      pre_close q = stored_price (PreClosePrice t) \<and>
      arr_get (ask_price q) 0 = stored_price (AskPrice1 t) \<and>
      arr_get (ask_price q) 1 = stored_price (AskPrice2 t) \<and>
      arr_get (ask_price q) 2 = stored_price (AskPrice3 t) \<and>
      arr_get (ask_price q) 3 = stored_price (AskPrice4 t) \<and>
      arr_get (ask_price q) 4 = stored_price (AskPrice5 t) \<and>
      arr_get (bid_price q) 0 = stored_price (BidPrice1 t) \<and>
      arr_get (bid_price q) 1 = stored_price (BidPrice2 t) \<and>
      arr_get (bid_price q) 2 = stored_price (BidPrice3 t) \<and>
      arr_get (bid_price q) 3 = stored_price (BidPrice4 t) \<and>
      arr_get (bid_price q) 4 = stored_price (BidPrice5 t)) \<and>
   (v \<le> to_double (1 / 10 ^ 6) \<or> to_double (10 ^ 300) \<le> v \<longrightarrow> stored_price v = 0) \<and>
   (v \<le> 0 \<longrightarrow> stored_price v = 0) \<and>
   (to_double (1 / 10 ^ 6) < v \<and> v < to_double (10 ^ 300) \<longrightarrow>
      stored_price v = to_double (c_round (to_double (v * 100)) / 100) \<and>
      \<bar>stored_price v - v\<bar> \<le> 1 / 200 + (v + 1) / 2 ^ 51) \<and>
   (to_double v = v \<longrightarrow>
      (stored_price v = 0 \<longleftrightarrow> v < 5 / 1000 \<or> to_double (10 ^ 300) \<le> v))"
proof (intro conjI)
  show "let q = build_market_data_struct (Some t) display cur_time in
      last_price q = stored_price (LastPrice t) \<and>
      highest q = stored_price (HighestPrice t) \<and>
      lowest q = stored_price (LowestPrice t) \<and>
      open' q = stored_price (OpenPrice t) \<and>
      close q = stored_price (ClosePrice t) \<and>
      settlement q = stored_price (SettlementPrice t) \<and>
      upper_limit q = stored_price (UpperLimitPrice t) \<and>
      lower_limit q = stored_price (LowerLimitPrice t) \<and>
      pre_settlement q = stored_price (PreSettlementPrice t) \<and>
      pre_close q = stored_price (PreClosePrice t) \<and>
      arr_get (ask_price q) 0 = stored_price (AskPrice1 t) \<and>
      arr_get (ask_price q) 1 = stored_price (AskPrice2 t) \<and>
      arr_get (ask_price q) 2 = stored_price (AskPrice3 t) \<and>
      arr_get (ask_price q) 3 = stored_price (AskPrice4 t) \<and>
      arr_get (ask_price q) 4 = stored_price (AskPrice5 t) \<and>
      arr_get (bid_price q) 0 = stored_price (BidPrice1 t) \<and>
      arr_get (bid_price q) 1 = stored_price (BidPrice2 t) \<and>
      arr_get (bid_price q) 2 = stored_price (BidPrice3 t) \<and>
      arr_get (bid_price q) 3 = stored_price (BidPrice4 t) \<and>
      arr_get (bid_price q) 4 = stored_price (BidPrice5 t)"
    by (simp add: Let_def arr_get_def)
  show "v \<le> to_double (1 / 10 ^ 6) \<or> to_double (10 ^ 300) \<le> v \<longrightarrow> stored_price v = 0"
    by (auto simp: stored_price_def price_is_valid_def)
  show "v \<le> 0 \<longrightarrow> stored_price v = 0"
    using price_is_valid_nonpos [of v] by (simp add: stored_price_def)
  show "to_double (1 / 10 ^ 6) < v \<and> v < to_double (10 ^ 300) \<longrightarrow>
      stored_price v = to_double (c_round (to_double (v * 100)) / 100) \<and>
      \<bar>stored_price v - v\<bar> \<le> 1 / 200 + (v + 1) / 2 ^ 51"
  proof
    assume "to_double (1 / 10 ^ 6) < v \<and> v < to_double (10 ^ 300)"
    then have g: "price_is_valid v"
      by (simp add: price_is_valid_def)
    show "stored_price v = to_double (c_round (to_double (v * 100)) / 100) \<and>
      \<bar>stored_price v - v\<bar> \<le> 1 / 200 + (v + 1) / 2 ^ 51"
      using g stored_price_accuracy [OF g] by (simp add: stored_price_def)
  qed
  show "to_double v = v \<longrightarrow>
      (stored_price v = 0 \<longleftrightarrow> v < 5 / 1000 \<or> to_double (10 ^ 300) \<le> v)"
    using stored_price_zero_iff [of v] by blast
qed

theorem price_validity_filter_witness:
  "stored_price (- 5) = 0 \<and>
   (to_double (1 / 10 ^ 6) < 3850.5 \<and> 3850.5 < to_double (10 ^ 300)) \<and>
   stored_price 3850.5 = to_double (c_round (to_double (3850.5 * 100)) / 100) \<and>
   \<bar>stored_price 3850.5 - 3850.5\<bar> \<le> 1 / 200 + (3850.5 + 1) / 2 ^ 51 \<and>
   to_double (1 / 256) = 1 / 256 \<and> stored_price (1 / 256) = 0"
proof -
  have h: "(- 5 :: real) \<le> 0"
    by simp
  have g: "to_double (1 / 10 ^ 6) < 3850.5 \<and> 3850.5 < to_double (10 ^ 300)"
    using price_is_valid_mid [of "3850.5"] by (simp add: price_is_valid_def)
  have d: "to_double (1 / 256) = 1 / 256"
    using to_double_powi [of "- 8"] by (simp add: power_int_minus_divide)
  have a: "stored_price (- 5) = 0"
    using price_validity_filter [of zero_tick "[]" 0 "- 5", THEN conjunct2, THEN conjunct2,
        THEN conjunct1] h
    by (rule mp)
  have b: "stored_price 3850.5 = to_double (c_round (to_double (3850.5 * 100)) / 100) \<and>
           \<bar>stored_price 3850.5 - 3850.5\<bar> \<le> 1 / 200 + (3850.5 + 1) / 2 ^ 51"
    using price_validity_filter [of zero_tick "[]" 0 "3850.5", THEN conjunct2, THEN conjunct2,
        THEN conjunct2, THEN conjunct1] g
    by (rule mp)
  have c: "stored_price (1 / 256) = 0 \<longleftrightarrow>
           (1 / 256 :: real) < 5 / 1000 \<or> to_double (10 ^ 300) \<le> 1 / 256"
    using price_validity_filter [of zero_tick "[]" 0 "1 / 256", THEN conjunct2, THEN conjunct2,
        THEN conjunct2, THEN conjunct2] d
    by (rule mp)
  have e: "stored_price (1 / 256) = 0"
    using c by simp
  from a g b d e show ?thesis
    by blast
qed

text \<open>
  Claim C4 as stated fails for a negative price: its magnitude 5 is inside the
  range, so the rule of the specification stores -5, and the code stores 0.
\<close>

theorem negative_price_counterexample:
  "last_price (build_market_data_struct (Some (zero_tick\<lparr> LastPrice := - 5 \<rparr>)) [] 0) = 0 \<and>
   spec_stored_price (LastPrice (zero_tick\<lparr> LastPrice := - 5 \<rparr>)) = - 5"
proof -
  have sel: "LastPrice (zero_tick\<lparr> LastPrice := - 5 \<rparr>) = - 5"
    by simp
  have "stored_price (- 5) = 0"
    using price_is_valid_nonpos [of "- 5"] by (simp add: stored_price_def)
  moreover have "spec_stored_price (- 5) = - 5"
  proof -
    have "\<not> (\<bar>- 5 :: real\<bar> \<le> to_double (1 / 10 ^ 6))"
      using literal_1e_6_small(2) by simp
    moreover have "\<not> (\<bar>- 5 :: real\<bar> \<ge> to_double (10 ^ 300))"
      using literal_1e300_large by simp
    moreover have "to_double (- 5 * 100) = - 500"
      using to_double_int [of "- 500"] by simp
    moreover have "c_round (- 500) = - 500"
      by (simp add: c_round_def)
    moreover have "to_double (- 500 / 100) = - 5"
      using to_double_int [of "- 5"] by simp
    ultimately show ?thesis
      by (simp only: spec_stored_price_def simp_thms if_False)
  qed
  ultimately show ?thesis
    unfolding build_market_data_struct.simps sel by simp
qed

section \<open>The incremental diff of scenario S2\<close>

text \<open>
  Claim C2, as the code has it. After the full snapshot of S1, the frame sent for
  the second tick has as quote of \<open>SHFE.rb2501\<close> exactly \<open>last_price = 3850.5\<close> and
  \<open>volume = 10001\<close>, preceded by \<open>timestamp\<close> (the receive time in milliseconds)
  unless the two ticks were received in the same millisecond.
\<close>

theorem scenario_S2_diff_quote:
  assumes "0 < n"
  shows "length (frames_sent (scenario_S2 n t1 t2) ''s1'') = 2 \<and>
         frame_quote (last (frames_sent (scenario_S2 n t1 t2) ''s1'')) ''SHFE.rb2501'' =
           Some (JObject ((if t1 \<noteq> t2 then [(''timestamp'', JUint64 t2)] else [])
                          @ [(''last_price'', JDouble 3850.5), (''volume'', JInt 10001)]))"
  using scenario_S2_frames [OF assms, of t1 t2]
  by (simp add: frame_quote_def frame_quotes_rtn_data)

theorem scenario_S2_diff_quote_witness:
  "0 < (1::nat) \<and>
   frame_quote (last (frames_sent (scenario_S2 1 1000 1000) ''s1'')) ''SHFE.rb2501'' =
     Some (JObject [(''last_price'', JDouble 3850.5), (''volume'', JInt 10001)]) \<and>
   frame_quote (last (frames_sent (scenario_S2 1 1000 2000) ''s1'')) ''SHFE.rb2501'' =
     Some (JObject [(''timestamp'', JUint64 2000), (''last_price'', JDouble 3850.5),
                    (''volume'', JInt 10001)])"
proof -
  have h: "0 < (1::nat)" by simp
  show ?thesis
    using h scenario_S2_diff_quote [OF h, of 1000 1000] scenario_S2_diff_quote [OF h, of 1000 2000]
    by simp
qed

text \<open>
  Claim C2 as stated fails when the second tick is received one second after the
  first: the quote has three members, the first of them \<open>timestamp\<close>.
\<close>

theorem scenario_S2_timestamp_counterexample:
  "frame_quote (last (frames_sent (scenario_S2 1 1000 2000) ''s1'')) ''SHFE.rb2501'' \<noteq>
     Some (JObject [(''last_price'', JDouble 3850.5), (''volume'', JInt 10001)])"
  using scenario_S2_frames [of 1 1000 2000]
  by (simp add: frame_quote_def frame_quotes_rtn_data)

section \<open>Versions of a cache slot\<close>

lemma get_or_create_index_cache:
  "market_data_cache (snd (get_or_create_index s instrument display)) = market_data_cache s"
  by (simp add: get_or_create_index_def Let_def split: option.split)

lemma entry_written:
  "e\<lparr> data := d, has_data := h, sequence := q \<rparr> = \<lparr> sequence = q, data = d, has_data = h \<rparr>"
  by (cases e) simp

lemma cache_market_data_length:
  "length (market_data_cache (cache_market_data s instrument d display)) =
   length (market_data_cache s)"
proof (cases "get_or_create_index s instrument display")
  case (Pair idx s1)
  then show ?thesis
    using get_or_create_index_cache [of s instrument display]
    by (simp add: cache_market_data_def Let_def)
qed

lemma cache_market_data_slot:
  assumes "get_or_create_index s instrument display = (idx, s1)"
    and "0 \<le> idx" and "nat idx < length (market_data_cache s)"
  shows "market_data_cache (cache_market_data s instrument d display) =
         (market_data_cache s)
           [nat idx := \<lparr> sequence = sequence (market_data_cache s ! nat idx) + 2,
                          data = d, has_data = True \<rparr>]"
  using assms get_or_create_index_cache [of s instrument display]
  by (simp add: cache_market_data_def Let_def entry_written)

lemma cache_market_data_step:
  assumes "k < length (market_data_cache s)"
  shows "sequence (market_data_cache (cache_market_data s instrument d display) ! k) =
           sequence (market_data_cache s ! k) \<or>
         sequence (market_data_cache (cache_market_data s instrument d display) ! k) =
           sequence (market_data_cache s ! k) + 2"
proof (cases "get_or_create_index s instrument display")
  case (Pair idx s1)
  have c: "market_data_cache s1 = market_data_cache s"
    using get_or_create_index_cache [of s instrument display] Pair by simp
  show ?thesis
  proof (cases "idx < 0")
    case True
    then show ?thesis using Pair c by (simp add: cache_market_data_def)
  next
    case False
    then show ?thesis
      using Pair c assms
      by (cases "k = nat idx") (simp_all add: cache_market_data_def Let_def)
  qed
qed

lemma publish_all_length:
  "length (market_data_cache (publish_all s ps)) = length (market_data_cache s)"
  unfolding publish_all_def
  by (induction ps arbitrary: s) (simp_all add: cache_market_data_length)

lemma publish_all_sequence:
  assumes "k < length (market_data_cache s)"
  shows "\<exists>m \<le> length ps.
           sequence (market_data_cache (publish_all s ps) ! k) =
           sequence (market_data_cache s ! k) + 2 * of_nat m"
  using assms
proof (induction ps arbitrary: s)
  case Nil
  then show ?case by (simp add: publish_all_def)
next
  case (Cons p ps)
  let ?s' = "cache_market_data s (fst p) (fst (snd p)) (snd (snd p))"
  have k': "k < length (market_data_cache ?s')"
    using Cons.prems by (simp add: cache_market_data_length)
  from Cons.IH [OF k'] obtain m where m: "m \<le> length ps"
    "sequence (market_data_cache (publish_all ?s' ps) ! k) =
     sequence (market_data_cache ?s' ! k) + 2 * of_nat m"
    by blast
  have unfold: "publish_all s (p # ps) = publish_all ?s' ps"
    by (simp add: publish_all_def)
  from cache_market_data_step [OF Cons.prems, of "fst p" "fst (snd p)" "snd (snd p)"]
  show ?case
  proof
    assume "sequence (market_data_cache ?s' ! k) = sequence (market_data_cache s ! k)"
    then show ?thesis using m unfold by (intro exI [of _ m]) simp
  next
    assume "sequence (market_data_cache ?s' ! k) = sequence (market_data_cache s ! k) + 2"
    then show ?thesis using m unfold by (intro exI [of _ "Suc m"]) simp
  qed
qed

lemma unat_add_2m:
  fixes w :: "64 word"
  assumes "unat w + 2 * m < 2 ^ 64"
  shows "unat (w + 2 * of_nat m) = unat w + 2 * m"
proof -
  have "unat (2 * of_nat m :: 64 word) = 2 * m"
    using assms by (simp add: unat_word_ariths unat_of_nat unsigned_of_nat take_bit_nat_eq_self)
  then show ?thesis
    using assms by (simp add: unat_add_lem [THEN iffD1])
qed

lemma version_le:
  fixes w :: "64 word"
  assumes "unat w + 2 * m < 2 ^ 64"
  shows "w div 2 \<le> (w + 2 * of_nat m) div 2"
    and "unat ((w + 2 * of_nat m) div 2) = unat (w div 2) + m"
  using unat_add_2m [OF assms]
  by (simp_all add: word_le_nat_alt unat_div)

lemma seqlock_read_seq_start:
  "seq_start (seqlock_read entry v) = sequence entry"
proof (induction entry v rule: seqlock_read.induct)
  case (1 entry v)
  show ?case
    by (subst seqlock_read.simps) (use 1 in \<open>simp add: Let_def\<close>)
qed

lemma collect_one_version:
  assumes "collect_one s last_versions instrument = Some (j, snap)"
  shows "version snap = slot_version s (nat (get_index s instrument))"
  using assms seqlock_read_seq_start [of "market_data_cache s ! nat (get_index s instrument)" seqlock_init]
  by (auto simp: collect_one_def slot_version_def Let_def split: if_splits)


lemma publish_same_slot:
  assumes "map_of (instrument_index_map s) instrument = Some 0"
    and "0 < length (market_data_cache s)"
  shows "sequence (market_data_cache (publish_all s (replicate n (instrument, d, display))) ! 0) =
         sequence (market_data_cache s ! 0) + 2 * of_nat n"
  using assms
proof (induction n arbitrary: s)
  case 0
  then show ?case by (simp add: publish_all_def)
next
  case (Suc n)
  let ?s' = "cache_market_data s instrument d display"
  have g: "get_or_create_index s instrument display = (0, s)"
    using Suc.prems(1) by (simp add: get_or_create_index_def)
  have c: "market_data_cache ?s' =
           (market_data_cache s)
             [0 := \<lparr> sequence = sequence (market_data_cache s ! 0) + 2, data = d,
                      has_data = True \<rparr>]"
    using cache_market_data_slot [OF g, of d] Suc.prems(2) by simp
  have i: "map_of (instrument_index_map ?s') instrument = Some 0"
    using g Suc.prems(1) by (simp add: cache_market_data_def Let_def)
  have l: "0 < length (market_data_cache ?s')"
    using Suc.prems(2) by (simp add: cache_market_data_length)
  have "publish_all s (replicate (Suc n) (instrument, d, display)) =
        publish_all ?s' (replicate n (instrument, d, display))"
    by (simp add: publish_all_def)
  then show ?case
    using Suc.IH [OF i l] c Suc.prems(2) by simp
qed

lemma publish_fresh_slot:
  "sequence (market_data_cache
     (publish_all (MarketDataServer_new 1) (replicate (Suc n) (instrument, d, display))) ! 0) =
   2 * of_nat (Suc n)"
proof -
  let ?s = "MarketDataServer_new 1"
  let ?s' = "cache_market_data ?s instrument d display"
  have g: "get_or_create_index ?s instrument display =
           (0, snd (get_or_create_index ?s instrument display))"
    by (simp add: get_or_create_index_def MarketDataServer_new_def Let_def)
  have c: "market_data_cache ?s' = [\<lparr> sequence = 2, data = d, has_data = True \<rparr>]"
    using cache_market_data_slot [OF g, of d]
    by (simp add: MarketDataServer_new_def empty_entry_def)
  have i: "map_of (instrument_index_map ?s') instrument = Some 0"
    by (simp add: cache_market_data_def get_or_create_index_def MarketDataServer_new_def Let_def)
  have l: "0 < length (market_data_cache ?s')"
    using c by simp
  have "publish_all ?s (replicate (Suc n) (instrument, d, display)) =
        publish_all ?s' (replicate n (instrument, d, display))"
    by (simp add: publish_all_def)
  then show ?thesis
    using publish_same_slot [OF i l, of n d display] c by simp
qed

text \<open>
  Claim C3, as the code has it. A call of \<open>cache_market_data\<close> that obtains a valid
  slot index adds 2 to the sequence of that slot in 64-bit arithmetic and leaves an
  even sequence even. While the sequence does not wrap around, the version
  \<open>seq_end / 2\<close> of the slot goes up by exactly 1 with the publish, and over any
  list of publishes the version of a slot does not decrease. A reader that takes a
  snapshot in \<open>collect_market_data_updates\<close> reports this version.
\<close>

theorem publish_increments_version:
  assumes "get_or_create_index s instrument display = (idx, s1)"
    and "0 \<le> idx" and "nat idx < length (market_data_cache s)"
  shows "sequence (market_data_cache (cache_market_data s instrument d display) ! nat idx) =
           sequence (market_data_cache s ! nat idx) + 2 \<and>
         (sequence (market_data_cache s ! nat idx) mod 2 = 0 \<longrightarrow>
            sequence (market_data_cache (cache_market_data s instrument d display) ! nat idx)
              mod 2 = 0) \<and>
         (unat (sequence (market_data_cache s ! nat idx)) + 2 < 2 ^ 64 \<longrightarrow>
            unat (slot_version (cache_market_data s instrument d display) (nat idx)) =
              unat (slot_version s (nat idx)) + 1) \<and>
         (k < length (market_data_cache s) \<and>
          unat (sequence (market_data_cache s ! k)) + 2 * length ps < 2 ^ 64 \<longrightarrow>
            slot_version s k \<le> slot_version (publish_all s ps) k) \<and>
         (collect_one s last_versions instrument = Some (j, snap) \<longrightarrow>
            version snap = slot_version s (nat (get_index s instrument)))"
proof -
  let ?seq = "sequence (market_data_cache s ! nat idx)"
  let ?s' = "cache_market_data s instrument d display"
  have a: "sequence (market_data_cache ?s' ! nat idx) = ?seq + 2"
    using cache_market_data_slot [OF assms, of d] assms(3) by simp
  have b: "(?seq + 2) mod 2 = 0" if "?seq mod 2 = 0"
    using that unfolding even_iff_mod_2_eq_zero [symmetric] by simp
  have c: "unat (slot_version ?s' (nat idx)) = unat (slot_version s (nat idx)) + 1"
    if "unat ?seq + 2 < 2 ^ 64"
    using version_le(2) [of ?seq 1] that a by (simp add: slot_version_def)
  have d: "slot_version s k \<le> slot_version (publish_all s ps) k"
    if h: "k < length (market_data_cache s)"
      "unat (sequence (market_data_cache s ! k)) + 2 * length ps < 2 ^ 64"
  proof -
    from publish_all_sequence [OF h(1), of ps] obtain m where m: "m \<le> length ps"
      "sequence (market_data_cache (publish_all s ps) ! k) =
       sequence (market_data_cache s ! k) + 2 * of_nat m"
      by blast
    have "unat (sequence (market_data_cache s ! k)) + 2 * m < 2 ^ 64"
      using h(2) m(1) by simp
    from version_le(1) [OF this] show ?thesis
      using m(2) by (simp add: slot_version_def)
  qed
  show ?thesis
    using a b c d collect_one_version [of s last_versions instrument j snap] by simp
qed

theorem publish_increments_version_witness:
  "get_or_create_index (scenario_start 1) ''rb2501'' ''SHFE.rb2501'' =
     (0, snd (get_or_create_index (scenario_start 1) ''rb2501'' ''SHFE.rb2501'')) \<and>
   (0::int) \<le> 0 \<and> nat 0 < length (market_data_cache (scenario_start 1)) \<and>
   sequence (market_data_cache
     (cache_market_data (scenario_start 1) ''rb2501'' (quote_S1 7) ''SHFE.rb2501'') ! nat 0) = 2 \<and>
   unat (slot_version
     (cache_market_data (scenario_start 1) ''rb2501'' (quote_S1 7) ''SHFE.rb2501'') (nat 0)) = 1"
proof -
  have g: "get_or_create_index (scenario_start 1) ''rb2501'' ''SHFE.rb2501'' =
           (0, snd (get_or_create_index (scenario_start 1) ''rb2501'' ''SHFE.rb2501''))"
    by (simp add: get_or_create_index_def scenario_start_def MarketDataServer_new_def Let_def)
  have l: "nat 0 < length (market_data_cache (scenario_start 1))"
    by (simp add: scenario_start_def MarketDataServer_new_def)
  have z: "sequence (market_data_cache (scenario_start 1) ! nat 0) = 0"
    "slot_version (scenario_start 1) (nat 0) = 0"
    by (simp_all add: scenario_start_def MarketDataServer_new_def empty_entry_def slot_version_def)
  show ?thesis
    using g l z publish_increments_version [OF g _ l, of "quote_S1 7" 0 "[]" "[]" "''rb2501''"
        "snap_S1 7"]
    by simp
qed

text \<open>
  Claim C3 as stated fails once the 64-bit sequence wraps around: on a fresh
  server, after \<open>2 ^ 63 - 1\<close> publishes to one instrument the version of its slot is
  \<open>2 ^ 63 - 1\<close>, and the next publish takes it to 0.
\<close>

theorem version_wrap_counterexample:
  "slot_version (publish_all (MarketDataServer_new 1)
       (replicate (2 ^ 63) (''rb2501'', zero_struct, ''SHFE.rb2501''))) 0
   < slot_version (publish_all (MarketDataServer_new 1)
       (replicate (2 ^ 63 - 1) (''rb2501'', zero_struct, ''SHFE.rb2501''))) 0"
proof -
  have a: "(2::nat) ^ 63 = Suc (2 ^ 63 - 1)" and b: "(2::nat) ^ 63 - 1 = Suc (2 ^ 63 - 2)"
    by simp_all
  have "slot_version (publish_all (MarketDataServer_new 1)
          (replicate (2 ^ 63) (''rb2501'', zero_struct, ''SHFE.rb2501''))) 0 = 0"
    unfolding slot_version_def
    by (subst a, subst publish_fresh_slot) simp
  moreover have "slot_version (publish_all (MarketDataServer_new 1)
          (replicate (2 ^ 63 - 1) (''rb2501'', zero_struct, ''SHFE.rb2501''))) 0 = 2 ^ 63 - 1"
    unfolding slot_version_def
    by (subst b, subst publish_fresh_slot) simp
  ultimately show ?thesis by simp
qed

section \<open>The capacity of a connection\<close>

lemma static_cast_size_t_le: "0 \<le> m \<Longrightarrow> int (static_cast_size_t m) \<le> m"
proof -
  assume "0 \<le> m"
  then have "m mod 2 ^ 64 \<le> m"
    by (simp add: zmod_le_nonneg_dividend)
  moreover have "0 \<le> m mod 2 ^ 64"
    by simp
  ultimately show ?thesis
    by (simp add: static_cast_size_t_def)
qed

lemma subscribe_within_capacity:
  assumes "within_capacity c"
  shows "within_capacity (fst (snd (subscribe_instrument api c wire instrument)))"
proof -
  have m: "0 \<le> max_subscriptions (config c)"
    using assms by (simp add: within_capacity_def)
  have "int (Suc (length (subscribed_instruments c))) \<le> max_subscriptions (config c)"
    if "length (subscribed_instruments c) < static_cast_size_t (max_subscriptions (config c))"
    using that static_cast_size_t_le [OF m] by linarith
  then show ?thesis
    using assms
    by (auto simp: subscribe_instrument_def within_capacity_def Let_def List.insert_def)
qed

lemma unsubscribe_within_capacity:
  assumes "within_capacity c"
  shows "within_capacity (fst (snd (unsubscribe_instrument api c wire instrument)))"
proof -
  have "int (length (removeAll instrument (subscribed_instruments c))) \<le>
        int (length (subscribed_instruments c))"
    by simp
  then have "int (length (removeAll instrument (subscribed_instruments c))) \<le>
        max_subscriptions (config c)"
    using assms unfolding within_capacity_def by linarith
  then show ?thesis
    using assms
    by (auto simp: unsubscribe_instrument_def within_capacity_def Let_def distinct_removeAll)
qed

lemma conn_step_within_capacity:
  assumes "within_capacity (fst cw)"
  shows "within_capacity (fst (conn_step api cw op))"
proof (cases cw)
  case (Pair c wire)
  then have c: "within_capacity c" using assms by simp
  have m: "0 \<le> max_subscriptions (config c)"
    using c by (simp add: within_capacity_def)
  show ?thesis
  proof (cases op)
    case (Subscribe i)
    then show ?thesis
      using Pair subscribe_within_capacity [OF c, of api wire i]
      by (cases "subscribe_instrument api c wire i") simp
  next
    case (Unsubscribe i)
    then show ?thesis
      using Pair unsubscribe_within_capacity [OF c, of api wire i]
      by (cases "unsubscribe_instrument api c wire i") simp
  qed (use Pair c m in \<open>auto simp: within_capacity_def handle_connection_error_def\<close>)
qed

lemma conn_run_within_capacity:
  assumes "within_capacity (fst cw)"
  shows "within_capacity (fst (conn_run api cw ops))"
  using assms unfolding conn_run_def
  by (induction ops arbitrary: cw) (simp_all add: conn_step_within_capacity)


text \<open>
  Claim C6, as the code has it. \<open>subscribe_instrument\<close> tests in this order: a
  connection that is not LOGGED_IN returns false; otherwise an instrument that is
  already subscribed returns true, also when the set is full; otherwise a set that
  has reached \<open>max_subscriptions\<close> returns false; none of the three issues a wire
  call. So a connection whose set is within \<open>max_subscriptions\<close> stays so under every
  operation, and a new connection is within it when \<open>max_subscriptions\<close> is not
  negative.
\<close>

theorem subscribe_capacity_bound:
  "(conn_status c \<noteq> LOGGED_IN \<longrightarrow>
      subscribe_instrument api c wire instrument = (False, c, wire)) \<and>
   (conn_status c = LOGGED_IN \<and> instrument \<in> set (subscribed_instruments c) \<longrightarrow>
      subscribe_instrument api c wire instrument = (True, c, wire)) \<and>
   (conn_status c = LOGGED_IN \<and> instrument \<notin> set (subscribed_instruments c) \<and>
    length (subscribed_instruments c) \<ge> static_cast_size_t (max_subscriptions (config c)) \<longrightarrow>
      subscribe_instrument api c wire instrument = (False, c, wire)) \<and>
   (can_accept_more_subscriptions c \<longleftrightarrow>
      conn_status c = LOGGED_IN \<and>
      length (subscribed_instruments c) < static_cast_size_t (max_subscriptions (config c))) \<and>
   (0 \<le> max_subscriptions cfg \<longrightarrow> within_capacity (CTPConnection_new cfg)) \<and>
   (within_capacity c \<longrightarrow>
      int (length (subscribed_instruments (fst (conn_run api (c, wire) ops)))) \<le>
        max_subscriptions (config c) \<and>
      within_capacity (fst (conn_run api (c, wire) ops)))"
proof -
  have cfg: "config (fst (conn_step api cw op)) = config (fst cw)" for cw op
    by (cases cw; cases op)
       (auto simp: subscribe_instrument_def unsubscribe_instrument_def Let_def
          handle_connection_error_def)
  have cfg_run: "config (fst (conn_run api cw ops)) = config (fst cw)" for cw
    unfolding conn_run_def by (induction ops arbitrary: cw) (simp_all add: cfg)
  have run: "int (length (subscribed_instruments (fst (conn_run api (c, wire) ops)))) \<le>
               max_subscriptions (config c) \<and>
             within_capacity (fst (conn_run api (c, wire) ops))"
    if "within_capacity c"
    using conn_run_within_capacity [of "(c, wire)" api ops] that cfg_run [of "(c, wire)"]
    by (simp add: within_capacity_def)
  show ?thesis
    using run
    by (simp add: subscribe_instrument_def can_accept_more_subscriptions_def
        within_capacity_def CTPConnection_new_def)
qed

theorem subscribe_capacity_bound_witness:
  "within_capacity
     \<lparr> config = \<lparr> front_addr = ''tcp://f1'', broker_id = ''9999'', connection_id = ''c1'',
                  max_subscriptions = 1, priority = 1, enabled = True \<rparr>,
       conn_status = LOGGED_IN, subscribed_instruments = [], error_count = 0 \<rparr> \<and>
   subscribed_instruments (fst (conn_run (\<lambda>k. 0)
     (\<lparr> config = \<lparr> front_addr = ''tcp://f1'', broker_id = ''9999'', connection_id = ''c1'',
                   max_subscriptions = 1, priority = 1, enabled = True \<rparr>,
        conn_status = LOGGED_IN, subscribed_instruments = [], error_count = 0 \<rparr>, [])
     [Subscribe ''a'', Subscribe ''b''])) = [''a''] \<and>
   int (length (subscribed_instruments (fst (conn_run (\<lambda>k. 0)
     (\<lparr> config = \<lparr> front_addr = ''tcp://f1'', broker_id = ''9999'', connection_id = ''c1'',
                   max_subscriptions = 1, priority = 1, enabled = True \<rparr>,
        conn_status = LOGGED_IN, subscribed_instruments = [], error_count = 0 \<rparr>, [])
     [Subscribe ''a'', Subscribe ''b''])))) \<le> 1"
proof -
  let ?c = "\<lparr> config = \<lparr> front_addr = ''tcp://f1'', broker_id = ''9999'', connection_id = ''c1'',
                  max_subscriptions = 1, priority = 1, enabled = True \<rparr>,
       conn_status = LOGGED_IN, subscribed_instruments = [], error_count = 0 \<rparr>"
  have h: "within_capacity ?c"
    by (simp add: within_capacity_def)
  have r: "subscribed_instruments (fst (conn_run (\<lambda>k. 0) (?c, [])
             [Subscribe ''a'', Subscribe ''b''])) = [''a'']"
    by (simp add: conn_run_def subscribe_instrument_def static_cast_size_t_def Let_def)
  show ?thesis
    using h r subscribe_capacity_bound [of ?c "\<lambda>k. 0" "[]" "''a''" "config ?c"
        "[Subscribe ''a'', Subscribe ''b'']"]
    by simp
qed

text \<open>
  Claim C6 as stated fails on a LOGGED_IN connection whose set is full when the
  instrument is one of the set: the call returns true, not false.
\<close>

theorem subscribe_full_idempotent_counterexample:
  "length (subscribed_instruments
     \<lparr> config = \<lparr> front_addr = ''tcp://f1'', broker_id = ''9999'', connection_id = ''c1'',
                  max_subscriptions = 1, priority = 1, enabled = True \<rparr>,
       conn_status = LOGGED_IN, subscribed_instruments = [''a''], error_count = 0 \<rparr>) = 1 \<and>
   fst (subscribe_instrument (\<lambda>k. 0)
     \<lparr> config = \<lparr> front_addr = ''tcp://f1'', broker_id = ''9999'', connection_id = ''c1'',
                  max_subscriptions = 1, priority = 1, enabled = True \<rparr>,
       conn_status = LOGGED_IN, subscribed_instruments = [''a''], error_count = 0 \<rparr>
     [] ''a'') = True"
  by (simp add: subscribe_instrument_def)

section \<open>Containers of the dispatcher\<close>

lemma map_of_map_modify:
  "map_of (map_modify k f m) = (map_of m)(k := map_option f (map_of m k))"
  by (induction m) (auto simp: map_modify_def fun_eq_iff)

lemma map_fst_map_modify: "map fst (map_modify k f m) = map fst m"
  by (induction m) (auto simp: map_modify_def)

lemma set_map_modify:
  "set (map_modify k f m) = (\<lambda>kv. if fst kv = k then (fst kv, f (snd kv)) else kv) ` set m"
  by (simp add: map_modify_def)

lemma map_of_map_insert: "map_of (map_insert k v m) = (map_of m)(k \<mapsto> v)"
  by (induction m) (auto simp: fun_eq_iff)

lemma map_of_map_erase: "map_of (map_erase k m) = (map_of m)(k := None)"
  by (induction m) (auto simp: map_erase_def fun_eq_iff)

section \<open>What each step of the dispatcher leaves unchanged\<close>

lemma select_frame:
  assumes "select_connection_round_robin d = (r, d')"
  shows "global_subscriptions d' = global_subscriptions d"
    and "retry_set d' = retry_set d" and "retry_inserts d' = retry_inserts d"
    and "max_retry_count d' = max_retry_count d" and "connections d' = connections d"
    and "wire_calls d' = wire_calls d"
    and "session_subscriptions d' = session_subscriptions d"
  using assms
  by (auto simp: select_connection_round_robin_def Let_def split: if_splits)

lemma select_available:
  assumes "select_connection_round_robin d = (Some c, d')"
  shows "c \<in> set (get_available_connections d)"
  using assms
  by (auto simp: select_connection_round_robin_def Let_def split: if_splits)

lemma select_none:
  "get_available_connections d = [] \<Longrightarrow> select_connection_round_robin d = (None, d)"
  by (simp add: select_connection_round_robin_def)

lemma execute_subscription_frame:
  assumes "execute_subscription api d instrument cid = (ok, d')"
  shows "global_subscriptions d' = global_subscriptions d"
    and "retry_set d' = retry_set d" and "retry_inserts d' = retry_inserts d"
    and "max_retry_count d' = max_retry_count d"
    and "session_subscriptions d' = session_subscriptions d"
  using assms
  by (auto simp: execute_subscription_def split: option.splits prod.splits)

lemma execute_unsubscription_frame:
  assumes "execute_unsubscription api d instrument cid = (ok, d')"
  shows "global_subscriptions d' = global_subscriptions d"
    and "retry_set d' = retry_set d" and "retry_inserts d' = retry_inserts d"
    and "max_retry_count d' = max_retry_count d"
  using assms
  by (auto simp: execute_unsubscription_def split: option.splits prod.splits)

lemma modify_subscription_simps:
  "global_subscriptions (modify_subscription i f d) = map_modify i f (global_subscriptions d)"
  "retry_set (modify_subscription i f d) = retry_set d"
  "retry_inserts (modify_subscription i f d) = retry_inserts d"
  "max_retry_count (modify_subscription i f d) = max_retry_count d"
  "connections (modify_subscription i f d) = connections d"
  "wire_calls (modify_subscription i f d) = wire_calls d"
  "round_robin_counter (modify_subscription i f d) = round_robin_counter d"
  "session_subscriptions (modify_subscription i f d) = session_subscriptions d"
  by (simp_all add: modify_subscription_def)

lemma retry_set_insert_simps:
  "global_subscriptions (retry_set_insert i d) = global_subscriptions d"
  "retry_set (retry_set_insert i d) = insort_insert i (retry_set d)"
  "retry_inserts (retry_set_insert i d) = retry_inserts d @ [i]"
  "max_retry_count (retry_set_insert i d) = max_retry_count d"
  "connections (retry_set_insert i d) = connections d"
  "wire_calls (retry_set_insert i d) = wire_calls d"
  by (simp_all add: retry_set_insert_def)

lemma select_modify:
  "select_connection_round_robin (modify_subscription i f d) =
   (fst (select_connection_round_robin d),
    modify_subscription i f (snd (select_connection_round_robin d)))"
  by (simp add: select_connection_round_robin_def get_available_connections_def
      modify_subscription_def Let_def)

section \<open>Failover\<close>

lemma migrate_subscription_cases:
  assumes "map_of (global_subscriptions d) j = Some info"
  shows "max_retry_count (migrate_subscription api d j from_id to_id) = max_retry_count d \<and>
         ((map_of (global_subscriptions (migrate_subscription api d j from_id to_id)) =
             (map_of (global_subscriptions d))
               (j \<mapsto> info\<lparr> assigned_connection_id := to_id, status := SUBSCRIBING,
                            retry_count := 0 \<rparr>) \<and>
           retry_set (migrate_subscription api d j from_id to_id) = retry_set d) \<or>
          (map_of (global_subscriptions (migrate_subscription api d j from_id to_id)) =
             (map_of (global_subscriptions d))
               (j \<mapsto> info\<lparr> assigned_connection_id := to_id, status := FAILED,
                            retry_count := 0 \<rparr>) \<and>
           set (retry_set (migrate_subscription api d j from_id to_id)) =
             (if 0 < max_retry_count d then insert j (set (retry_set d)) else set (retry_set d))))"
proof -
  let ?d1 = "modify_subscription j
               (\<lambda>i. i\<lparr> assigned_connection_id := to_id, status := SUBSCRIBING,
                       retry_count := 0 \<rparr>) d"
  obtain ok d2 where e: "execute_subscription api ?d1 j to_id = (ok, d2)"
    by (cases "execute_subscription api ?d1 j to_id")
  note f = execute_subscription_frame [OF e]
  show ?thesis
    using assms e f
    by (cases ok)
       (auto simp: migrate_subscription_def Let_def modify_subscription_simps
          retry_set_insert_simps map_of_map_modify set_insort_insert fun_eq_iff)
qed

lemma migrate_subscription_none:
  "map_of (global_subscriptions d) j = None \<Longrightarrow> migrate_subscription api d j from_id to_id = d"
  by (simp add: migrate_subscription_def)

lemma settled_unsettled: "settled cid d i \<Longrightarrow> unsettled cid d i"
  by (auto simp: settled_def unsettled_def)

lemma failover_one_max: "max_retry_count (failover_one api cid j d) = max_retry_count d"
proof -
  obtain r d1 where s: "select_connection_round_robin d = (r, d1)"
    by (cases "select_connection_round_robin d")
  note f = select_frame [OF s]
  have m: "max_retry_count (migrate_subscription api d1 j cid to_id) = max_retry_count d1" for to_id
    using migrate_subscription_cases [of d1 j _ api cid to_id] migrate_subscription_none [of d1 j api cid to_id]
    by (cases "map_of (global_subscriptions d1) j") auto
  show ?thesis
    using s f m
    by (auto simp: failover_one_def retry_set_insert_simps split: option.splits)
qed

lemma failover_one_self:
  assumes "unsettled cid d i"
  shows "settled cid (failover_one api cid i d) i"
proof -
  obtain r d1 where s: "select_connection_round_robin d = (r, d1)"
    by (cases "select_connection_round_robin d")
  note f = select_frame [OF s]
  from assms obtain info where info: "map_of (global_subscriptions d1) i = Some info"
    "(status info = SUBSCRIBING \<and> assigned_connection_id info \<noteq> cid) \<or> status info = FAILED"
    using f(1) by (auto simp: unsettled_def)
  have stay: "settled cid (if retry_count info < max_retry_count d1
                           then retry_set_insert i d1 else d1) i"
    using info by (auto simp: settled_def retry_set_insert_simps set_insort_insert)
  have mig: "settled cid (migrate_subscription api d1 i cid to_id) i" if "to_id \<noteq> cid" for to_id
    using migrate_subscription_cases [OF info(1), of api cid to_id] that
    by (auto simp: settled_def split: if_splits)
  show ?thesis
    using s info(1) stay mig
    by (auto simp: failover_one_def split: option.splits)
qed

lemma failover_one_other:
  assumes "j \<noteq> i"
  shows "settled cid d i \<Longrightarrow> settled cid (failover_one api cid j d) i"
    and "unsettled cid d i \<Longrightarrow> unsettled cid (failover_one api cid j d) i"
proof -
  obtain r d1 where s: "select_connection_round_robin d = (r, d1)"
    by (cases "select_connection_round_robin d")
  note f = select_frame [OF s]
  have look: "map_of (global_subscriptions (failover_one api cid j d)) i =
              map_of (global_subscriptions d) i"
  proof (cases "map_of (global_subscriptions d1) j")
    case None
    then show ?thesis
      using s f(1) migrate_subscription_none [of d1 j api cid]
      by (auto simp: failover_one_def split: option.splits)
  next
    case (Some info)
    have "map_of (global_subscriptions (migrate_subscription api d1 j cid to_id)) i =
          map_of (global_subscriptions d1) i" for to_id
      using migrate_subscription_cases [OF Some, of api cid to_id] assms by auto
    then show ?thesis
      using s f(1) Some
      by (auto simp: failover_one_def retry_set_insert_simps split: option.splits)
  qed
  have sub: "set (retry_set d) \<subseteq> set (retry_set (failover_one api cid j d))"
  proof (cases "map_of (global_subscriptions d1) j")
    case None
    then show ?thesis
      using s f(2) migrate_subscription_none [of d1 j api cid]
      by (auto simp: failover_one_def split: option.splits)
  next
    case (Some info)
    have "set (retry_set d1) \<subseteq> set (retry_set (migrate_subscription api d1 j cid to_id))" for to_id
      using migrate_subscription_cases [OF Some, of api cid to_id] by (auto split: if_splits)
    then show ?thesis
      using s f(2) Some
      by (auto simp: failover_one_def retry_set_insert_simps set_insort_insert
          split: option.splits)
  qed
  show "settled cid d i \<Longrightarrow> settled cid (failover_one api cid j d) i"
    using look sub failover_one_max [of api cid j d] by (auto simp: settled_def)
  show "unsettled cid d i \<Longrightarrow> unsettled cid (failover_one api cid j d) i"
    using look by (auto simp: unsettled_def)
qed

lemma failover_one_settled: "settled cid d i \<Longrightarrow> settled cid (failover_one api cid j d) i"
  using failover_one_other(1) [of j i cid d api] failover_one_self [of cid d i api]
    settled_unsettled [of cid d i]
  by (cases "j = i") auto

lemma failover_one_unsettled: "unsettled cid d i \<Longrightarrow> unsettled cid (failover_one api cid j d) i"
  using failover_one_other(2) [of j i cid d api] failover_one_self [of cid d i api]
    settled_unsettled [of cid "failover_one api cid i d" i]
  by (cases "j = i") auto

lemma fold_failover_settled:
  assumes "\<forall>i \<in> set xs. unsettled cid d i" and "\<forall>i \<in> A. settled cid d i"
  shows "\<forall>i \<in> A \<union> set xs. settled cid (fold (failover_one api cid) xs d) i"
  using assms
proof (induction xs arbitrary: d A)
  case Nil
  then show ?case by simp
next
  case (Cons x xs)
  let ?d = "failover_one api cid x d"
  have 1: "\<forall>i \<in> set xs. unsettled cid ?d i"
    using Cons.prems(1) failover_one_unsettled by simp
  have 2: "\<forall>i \<in> insert x A. settled cid ?d i"
    using Cons.prems failover_one_settled failover_one_self by simp
  from Cons.IH [OF 1 2] show ?case by simp
qed

lemma map_modify_twice: "map_modify k g (map_modify k f m) = map_modify k (g \<circ> f) m"
  by (induction m) (auto simp: map_modify_def)

lemma map_modify_id: "map_modify k (\<lambda>x. x) m = m"
  by (induction m) (auto simp: map_modify_def)

lemma migrate_subscription_global:
  "\<exists>F. global_subscriptions (migrate_subscription api d j from_id to_id) =
          map_modify j F (global_subscriptions d) \<and>
        (\<forall>info. F info = info \<or> status (F info) \<noteq> ACTIVE)"
proof (cases "map_of (global_subscriptions d) j")
  case None
  then have "migrate_subscription api d j from_id to_id = d"
    by (rule migrate_subscription_none)
  moreover have "map_modify j (\<lambda>x. x) (global_subscriptions d) = global_subscriptions d"
    by (rule map_modify_id)
  ultimately show ?thesis
    by (intro exI [of _ "\<lambda>x. x"]) simp
next
  case (Some info)
  let ?f = "\<lambda>i. i\<lparr> assigned_connection_id := to_id, status := SUBSCRIBING, retry_count := 0 \<rparr>"
  let ?g = "\<lambda>i :: SubscriptionInfo. i\<lparr> status := FAILED \<rparr>"
  let ?d1 = "modify_subscription j ?f d"
  obtain ok d2 where e: "execute_subscription api ?d1 j to_id = (ok, d2)"
    by (cases "execute_subscription api ?d1 j to_id")
  note f = execute_subscription_frame [OF e]
  show ?thesis
  proof (cases ok)
    case True
    then have "global_subscriptions (migrate_subscription api d j from_id to_id) =
               map_modify j ?f (global_subscriptions d)"
      using Some e f by (simp add: migrate_subscription_def Let_def modify_subscription_simps)
    then show ?thesis
      by (intro exI [of _ ?f]) simp
  next
    case False
    then have "global_subscriptions (migrate_subscription api d j from_id to_id) =
               map_modify j (?g \<circ> ?f) (global_subscriptions d)"
      using Some e f
      by (simp add: migrate_subscription_def Let_def modify_subscription_simps
          retry_set_insert_simps map_modify_twice)
    then show ?thesis
      by (intro exI [of _ "?g \<circ> ?f"]) simp
  qed
qed

lemma no_active_map_modify:
  assumes "list_all (\<lambda>kv. \<not> (status (snd kv) = ACTIVE \<and> assigned_connection_id (snd kv) = cid)) m"
    and "\<forall>info. F info = info \<or> status (F info) \<noteq> ACTIVE"
  shows "list_all (\<lambda>kv. \<not> (status (snd kv) = ACTIVE \<and> assigned_connection_id (snd kv) = cid))
           (map_modify j F m)"
  using assms(1)
proof (induction m)
  case Nil
  then show ?case by (simp add: map_modify_def)
next
  case (Cons kv m)
  have tl: "list_all (\<lambda>kv. \<not> (status (snd kv) = ACTIVE \<and> assigned_connection_id (snd kv) = cid))
              (map_modify j F m)"
    using Cons by simp
  have hd: "\<not> (status (F (snd kv)) = ACTIVE \<and> assigned_connection_id (F (snd kv)) = cid)"
  proof (cases "F (snd kv) = snd kv")
    case True
    then show ?thesis using Cons.prems by simp
  next
    case False
    then show ?thesis using assms(2) by blast
  qed
  have "map_modify j F (kv # m) =
        (if fst kv = j then (fst kv, F (snd kv)) else kv) # map_modify j F m"
    by (simp add: map_modify_def)
  then show ?case
    using tl hd Cons.prems by simp
qed

lemma failover_one_no_active:
  assumes "no_active_on cid d"
  shows "no_active_on cid (failover_one api cid j d)"
proof -
  obtain r d1 where s: "select_connection_round_robin d = (r, d1)"
    by (cases "select_connection_round_robin d")
  note f = select_frame [OF s]
  have n1: "no_active_on cid d1"
    using assms f(1) by (simp add: no_active_on_def)
  have mig: "no_active_on cid (migrate_subscription api d1 j cid to_id)" for to_id
  proof -
    obtain F where F: "global_subscriptions (migrate_subscription api d1 j cid to_id) =
          map_modify j F (global_subscriptions d1)"
        "\<forall>info. F info = info \<or> status (F info) \<noteq> ACTIVE"
      using migrate_subscription_global [of api d1 j cid to_id] by blast
    show ?thesis
      unfolding no_active_on_def F(1)
      by (rule no_active_map_modify [OF n1 [unfolded no_active_on_def] F(2)])
  qed
  have ins: "no_active_on cid (retry_set_insert j d1)"
    using n1 by (simp add: no_active_on_def retry_set_insert_simps)
  show ?thesis
  proof (cases r)
    case None
    then show ?thesis using s ins n1 by (simp add: failover_one_def split: option.splits)
  next
    case (Some c)
    then show ?thesis using s n1 mig ins by (simp add: failover_one_def split: option.splits)
  qed
qed

lemma fold_failover_no_active:
  "no_active_on cid d \<Longrightarrow> no_active_on cid (fold (failover_one api cid) xs d)"
  by (induction xs arbitrary: d) (simp_all add: failover_one_no_active)

lemma mark_no_active_aux:
  "list_all (\<lambda>kv. \<not> (status (snd kv) = ACTIVE \<and> assigned_connection_id (snd kv) = cid))
     (map (\<lambda>kv. if assigned_connection_id (snd kv) = cid \<and> status (snd kv) = ACTIVE
                then (fst kv, (snd kv)\<lparr> status := FAILED \<rparr>) else kv) m)"
  by (induction m) auto

lemma mark_affected_no_active: "no_active_on cid (mark_affected_failed d cid)"
  unfolding no_active_on_def mark_affected_failed_def
  using mark_no_active_aux [of cid "global_subscriptions d"] by simp

lemma mark_lookup_aux:
  assumes "distinct (map fst m)" and "(i, info) \<in> set m"
    and "assigned_connection_id info = cid" and "status info = ACTIVE"
  shows "map_of (map (\<lambda>kv. if assigned_connection_id (snd kv) = cid \<and> status (snd kv) = ACTIVE
                           then (fst kv, (snd kv)\<lparr> status := FAILED \<rparr>) else kv) m) i =
         Some (info\<lparr> status := FAILED \<rparr>)"
  using assms(1,2)
proof (induction m)
  case Nil
  then show ?case by simp
next
  case (Cons kv m)
  show ?case
  proof (cases "kv = (i, info)")
    case True
    then show ?thesis using assms(3,4) by simp
  next
    case False
    then have in_tl: "(i, info) \<in> set m" using Cons.prems(2) by simp
    then have "i \<in> fst ` set m" by force
    then have ne: "fst kv \<noteq> i" using Cons.prems(1) by auto
    have "map_of (map (\<lambda>kv. if assigned_connection_id (snd kv) = cid \<and> status (snd kv) = ACTIVE
                           then (fst kv, (snd kv)\<lparr> status := FAILED \<rparr>) else kv) m) i =
          Some (info\<lparr> status := FAILED \<rparr>)"
      using Cons.IH Cons.prems(1) in_tl by simp
    then show ?thesis using ne by simp
  qed
qed

lemma mark_affected_lookup:
  assumes "distinct (map fst (global_subscriptions d))"
    and "i \<in> set (affected_instruments_of d cid)"
  shows "\<exists>info. map_of (global_subscriptions (mark_affected_failed d cid)) i = Some info \<and>
           status info = FAILED"
proof -
  from assms(2) obtain info where in_set: "(i, info) \<in> set (global_subscriptions d)"
    and act: "assigned_connection_id info = cid" "status info = ACTIVE"
    by (auto simp: affected_instruments_of_def)
  from mark_lookup_aux [OF assms(1) in_set act] show ?thesis
    by (simp add: mark_affected_failed_def)
qed

lemma handle_connection_failure_unfold:
  "global_subscriptions (handle_connection_failure api d cid) =
     global_subscriptions (fold (failover_one api cid) (affected_instruments_of d cid)
       (mark_affected_failed d cid))"
  "retry_set (handle_connection_failure api d cid) =
     retry_set (fold (failover_one api cid) (affected_instruments_of d cid)
       (mark_affected_failed d cid))"
  "max_retry_count (handle_connection_failure api d cid) =
     max_retry_count (fold (failover_one api cid) (affected_instruments_of d cid)
       (mark_affected_failed d cid))"
  by (simp_all add: handle_connection_failure_def Let_def)

lemmas dispatcher_defs =
  SubscriptionDispatcher_new_def add_subscription_def new_SubscriptionInfo_def
  session_subscriptions_insert_def select_connection_round_robin_def
  get_available_connections_def can_accept_more_subscriptions_def static_cast_size_t_def
  modify_subscription_def map_modify_def execute_subscription_def get_connection_def
  subscribe_instrument_def on_subscription_success_def on_subscription_failed_def
  int_incr_def
  retry_set_insert_def process_pending_subscriptions_def retry_one_def
  handle_connection_failure_def affected_instruments_of_def mark_affected_failed_def
  failover_one_def migrate_subscription_def insort_insert_key_def Let_def

lemma added_on_c1:
  "snd (add_subscription api_accepts 0 (SubscriptionDispatcher_new 3 [(''c1'', conn_c1)])
          ''s1'' ''rb2501'') =
   \<lparr> global_subscriptions =
       [(''rb2501'',
         \<lparr> sub_instrument_id = ''rb2501'', assigned_connection_id = ''c1'', status = SUBSCRIBING,
           requesting_sessions = {''s1''}, created_time = 0, last_update_time = 0,
           retry_count = 0 \<rparr>)],
     session_subscriptions = [''s1'' \<mapsto> [''rb2501'']],
     connection_subscriptions = Map.empty, round_robin_counter = 1, retry_set = [],
     max_retry_count = 3,
     connections = [(''c1'', conn_c1\<lparr> subscribed_instruments := [''rb2501''] \<rparr>)],
     wire_calls = [SubscribeMarketData ''c1'' ''rb2501''], retry_inserts = [] \<rparr>"
  by (simp add: dispatcher_defs conn_c1_def api_accepts_def)

lemma active_on_c1_eq:
  "active_on_c1 =
   \<lparr> global_subscriptions =
       [(''rb2501'',
         \<lparr> sub_instrument_id = ''rb2501'', assigned_connection_id = ''c1'', status = ACTIVE,
           requesting_sessions = {''s1''}, created_time = 0, last_update_time = 0,
           retry_count = 0 \<rparr>)],
     session_subscriptions = [''s1'' \<mapsto> [''rb2501'']],
     connection_subscriptions = [''c1'' \<mapsto> {''rb2501''}], round_robin_counter = 1,
     retry_set = [], max_retry_count = 3,
     connections = [(''c1'', conn_c1\<lparr> subscribed_instruments := [''rb2501''] \<rparr>)],
     wire_calls = [SubscribeMarketData ''c1'' ''rb2501''], retry_inserts = [] \<rparr>"
  unfolding active_on_c1_def added_on_c1
  by (simp add: on_subscription_success_def modify_subscription_def map_modify_def)

lemma exhausted_on_c1_eq:
  "exhausted_on_c1 =
   \<lparr> global_subscriptions =
       [(''rb2501'',
         \<lparr> sub_instrument_id = ''rb2501'', assigned_connection_id = ''c1'', status = ACTIVE,
           requesting_sessions = {''s1''}, created_time = 0, last_update_time = 0,
           retry_count = 3 \<rparr>)],
     session_subscriptions = [''s1'' \<mapsto> [''rb2501'']],
     connection_subscriptions = [''c1'' \<mapsto> {''rb2501''}], round_robin_counter = 1,
     retry_set = [], max_retry_count = 3,
     connections = [(''c1'', conn_c1\<lparr> subscribed_instruments := [''rb2501''] \<rparr>)],
     wire_calls = [SubscribeMarketData ''c1'' ''rb2501''],
     retry_inserts = [''rb2501'', ''rb2501''] \<rparr>"
  unfolding exhausted_on_c1_def added_on_c1
  by (simp add: on_subscription_success_def on_subscription_failed_def modify_subscription_def
      map_modify_def retry_set_insert_def insort_insert_key_def process_pending_subscriptions_def
      retry_one_def int_incr_def Let_def)

lemma failure_active_on_c1:
  "handle_connection_failure api_accepts active_on_c1 ''c1'' =
   \<lparr> global_subscriptions =
       [(''rb2501'',
         \<lparr> sub_instrument_id = ''rb2501'', assigned_connection_id = ''c1'', status = FAILED,
           requesting_sessions = {''s1''}, created_time = 0, last_update_time = 0,
           retry_count = 0 \<rparr>)],
     session_subscriptions = [''s1'' \<mapsto> [''rb2501'']],
     connection_subscriptions = Map.empty, round_robin_counter = 2,
     retry_set = [''rb2501''], max_retry_count = 3,
     connections = [(''c1'', conn_c1\<lparr> subscribed_instruments := [''rb2501''] \<rparr>)],
     wire_calls = [SubscribeMarketData ''c1'' ''rb2501''], retry_inserts = [''rb2501''] \<rparr>"
  unfolding active_on_c1_eq
  by (simp add: dispatcher_defs conn_c1_def)

lemma failure_exhausted_on_c1:
  "handle_connection_failure api_accepts exhausted_on_c1 ''c1'' =
   \<lparr> global_subscriptions =
       [(''rb2501'',
         \<lparr> sub_instrument_id = ''rb2501'', assigned_connection_id = ''c1'', status = FAILED,
           requesting_sessions = {''s1''}, created_time = 0, last_update_time = 0,
           retry_count = 3 \<rparr>)],
     session_subscriptions = [''s1'' \<mapsto> [''rb2501'']],
     connection_subscriptions = Map.empty, round_robin_counter = 2,
     retry_set = [], max_retry_count = 3,
     connections = [(''c1'', conn_c1\<lparr> subscribed_instruments := [''rb2501''] \<rparr>)],
     wire_calls = [SubscribeMarketData ''c1'' ''rb2501''],
     retry_inserts = [''rb2501'', ''rb2501''] \<rparr>"
  unfolding exhausted_on_c1_eq
  by (simp add: dispatcher_defs conn_c1_def)

section \<open>Failover of a connection\<close>

text \<open>
  Claim C7, amended. After \<open>handle_connection_failure\<close> for a connection, no record
  is ACTIVE on that connection, and every record that was ACTIVE on it is
  SUBSCRIBING on a different connection, or FAILED and in the retry set, or FAILED
  with a retry count that has reached \<open>max_retry_count\<close>: such a record is left
  FAILED and is not queued.
\<close>

theorem failover_completeness:
  assumes "distinct (map fst (global_subscriptions d))"
  shows "list_all (\<lambda>kv. \<not> (status (snd kv) = ACTIVE \<and> assigned_connection_id (snd kv) = cid))
           (global_subscriptions (handle_connection_failure api d cid)) \<and>
         (\<forall>i \<in> set (affected_instruments_of d cid).
            \<exists>info. map_of (global_subscriptions (handle_connection_failure api d cid)) i = Some info \<and>
              ((status info = SUBSCRIBING \<and> assigned_connection_id info \<noteq> cid) \<or>
               (status info = FAILED \<and> i \<in> set (retry_set (handle_connection_failure api d cid))) \<or>
               (status info = FAILED \<and>
                max_retry_count (handle_connection_failure api d cid) \<le> retry_count info)))"
proof -
  let ?xs = "affected_instruments_of d cid"
  let ?d1 = "mark_affected_failed d cid"
  let ?d2 = "fold (failover_one api cid) ?xs ?d1"
  have "no_active_on cid ?d2"
    by (rule fold_failover_no_active [OF mark_affected_no_active])
  then have a: "list_all (\<lambda>kv. \<not> (status (snd kv) = ACTIVE \<and> assigned_connection_id (snd kv) = cid))
           (global_subscriptions (handle_connection_failure api d cid))"
    by (simp only: no_active_on_def handle_connection_failure_unfold)
  have u: "\<forall>i \<in> set ?xs. unsettled cid ?d1 i"
    using mark_affected_lookup [OF assms] by (auto simp: unsettled_def)
  have "\<forall>i \<in> {} \<union> set ?xs. settled cid ?d2 i"
    by (rule fold_failover_settled [OF u]) simp
  then have s: "\<forall>i \<in> set ?xs. settled cid ?d2 i"
    by simp
  have b: "\<exists>info. map_of (global_subscriptions (handle_connection_failure api d cid)) i = Some info \<and>
              ((status info = SUBSCRIBING \<and> assigned_connection_id info \<noteq> cid) \<or>
               (status info = FAILED \<and> i \<in> set (retry_set (handle_connection_failure api d cid))) \<or>
               (status info = FAILED \<and>
                max_retry_count (handle_connection_failure api d cid) \<le> retry_count info))"
    if "i \<in> set ?xs" for i
  proof -
    from s that have "settled cid ?d2 i" by blast
    then show ?thesis
      unfolding settled_def handle_connection_failure_unfold by blast
  qed
  from a b show ?thesis by blast
qed

theorem failover_completeness_witness:
  "affected_instruments_of active_on_c1 ''c1'' = [''rb2501''] \<and>
   map_option status
     (map_of (global_subscriptions (handle_connection_failure api_accepts active_on_c1 ''c1''))
        ''rb2501'') = Some FAILED \<and>
   ''rb2501'' \<in> set (retry_set (handle_connection_failure api_accepts active_on_c1 ''c1'')) \<and>
   list_all (\<lambda>kv. \<not> (status (snd kv) = ACTIVE \<and> assigned_connection_id (snd kv) = ''c1''))
     (global_subscriptions (handle_connection_failure api_accepts active_on_c1 ''c1''))"
proof -
  have h: "distinct (map fst (global_subscriptions active_on_c1))"
    by (simp add: active_on_c1_eq)
  have x: "affected_instruments_of active_on_c1 ''c1'' = [''rb2501'']"
    by (simp add: active_on_c1_eq affected_instruments_of_def)
  show ?thesis
    using failover_completeness [OF h, of "''c1''" api_accepts] x
    by (simp add: failure_active_on_c1)
qed

text \<open>
  Claim C7 as stated fails for a record whose retry count has reached
  \<open>max_retry_count\<close> when no other connection is available: it was ACTIVE on the
  connection, and afterwards it is FAILED on the same connection and the retry set
  is empty.
\<close>

theorem failover_exhausted_counterexample:
  "affected_instruments_of exhausted_on_c1 ''c1'' = [''rb2501''] \<and>
   map_option status
     (map_of (global_subscriptions (handle_connection_failure api_accepts exhausted_on_c1 ''c1''))
        ''rb2501'') = Some FAILED \<and>
   map_option assigned_connection_id
     (map_of (global_subscriptions (handle_connection_failure api_accepts exhausted_on_c1 ''c1''))
        ''rb2501'') = Some ''c1'' \<and>
   retry_set (handle_connection_failure api_accepts exhausted_on_c1 ''c1'') = []"
  by (simp add: failure_exhausted_on_c1) (simp add: exhausted_on_c1_eq affected_instruments_of_def)

section \<open>Inserts into the retry set\<close>

lemma session_subscriptions_insert_simps:
  "global_subscriptions (session_subscriptions_insert s i d) = global_subscriptions d"
  "retry_set (session_subscriptions_insert s i d) = retry_set d"
  "retry_inserts (session_subscriptions_insert s i d) = retry_inserts d"
  "max_retry_count (session_subscriptions_insert s i d) = max_retry_count d"
  "connections (session_subscriptions_insert s i d) = connections d"
  "wire_calls (session_subscriptions_insert s i d) = wire_calls d"
  "round_robin_counter (session_subscriptions_insert s i d) = round_robin_counter d"
  by (simp_all add: session_subscriptions_insert_def)

lemma add_subscription_retry_inserts:
  "(retry_inserts (snd (add_subscription api now d s j)) = retry_inserts d \<and>
    retry_set (snd (add_subscription api now d s j)) = retry_set d) \<or>
   (map_of (global_subscriptions d) j = None \<and>
    retry_inserts (snd (add_subscription api now d s j)) = retry_inserts d @ [j] \<and>
    retry_set (snd (add_subscription api now d s j)) = insort_insert j (retry_set d))"
proof (cases "map_of (global_subscriptions d) j")
  case (Some info)
  then show ?thesis
    by (simp add: add_subscription_def session_subscriptions_insert_simps
        modify_subscription_simps)
next
  case None
  let ?si = "(new_SubscriptionInfo j now)\<lparr> requesting_sessions := {s} \<rparr>"
  let ?d1 = "session_subscriptions_insert s j
               (d\<lparr> global_subscriptions := map_insert j ?si (global_subscriptions d) \<rparr>)"
  obtain r d2 where sel: "select_connection_round_robin ?d1 = (r, d2)"
    by (cases "select_connection_round_robin ?d1")
  note f = select_frame [OF sel]
  have r1: "retry_inserts d2 = retry_inserts d" "retry_set d2 = retry_set d"
    using f(2,3) by (simp_all add: session_subscriptions_insert_simps)
  show ?thesis
  proof (cases r)
    case None': None
    then show ?thesis
      using None sel r1
      by (simp add: add_subscription_def Let_def modify_subscription_simps
          retry_set_insert_simps)
  next
    case (Some c)
    let ?d3 = "modify_subscription j
                 (\<lambda>i. i\<lparr> assigned_connection_id := connection_id (config c),
                         status := SUBSCRIBING \<rparr>) d2"
    obtain ok d4 where e: "execute_subscription api ?d3 j (connection_id (config c)) = (ok, d4)"
      by (cases "execute_subscription api ?d3 j (connection_id (config c))")
    note g = execute_subscription_frame [OF e]
    show ?thesis
      using None sel Some e g(2,3) r1
      by (simp add: add_subscription_def Let_def modify_subscription_simps)
  qed
qed

lemma int_incr_in_range: "- (2 ^ 31) \<le> x \<Longrightarrow> x < 2 ^ 31 - 1 \<Longrightarrow> int_incr x = x + 1"
  by (simp add: int_incr_def)

lemma on_subscription_failed_retry_inserts:
  "retry_inserts (on_subscription_failed now d c j) =
     (case map_of (global_subscriptions d) j of
        None \<Rightarrow> retry_inserts d
      | Some info \<Rightarrow>
          if int_incr (retry_count info) < max_retry_count d then retry_inserts d @ [j]
          else retry_inserts d)"
  "retry_set (on_subscription_failed now d c j) =
     (case map_of (global_subscriptions d) j of
        None \<Rightarrow> retry_set d
      | Some info \<Rightarrow>
          if int_incr (retry_count info) < max_retry_count d then insort_insert j (retry_set d)
          else retry_set d)"
  by (simp_all add: on_subscription_failed_def Let_def modify_subscription_simps
      retry_set_insert_simps split: option.splits)

lemma on_subscription_failed_count:
  assumes "map_of (global_subscriptions d) i = Some info"
  shows "map_option retry_count
           (map_of (global_subscriptions (on_subscription_failed now d c i)) i) =
         Some (int_incr (retry_count info))"
  using assms
  by (simp add: on_subscription_failed_def Let_def modify_subscription_simps
      retry_set_insert_simps map_of_map_modify)

lemma retry_one_inv:
  assumes "drain_inv i m lg acc"
  shows "drain_inv i m lg (retry_one api j acc)"
proof -
  obtain d fa where acc: "acc = (d, fa)" by (cases acc)
  from assms acc obtain info where
    inv: "i \<notin> set fa" "max_retry_count d = m" "retry_inserts d = lg"
      "retry_set d = []"
      "map_of (global_subscriptions d) i = Some info"
      "m \<le> retry_count info \<or> status info \<noteq> FAILED"
    by (auto simp: drain_inv_def split: option.splits)
  show ?thesis
  proof (cases "map_of (global_subscriptions d) j")
    case None
    then show ?thesis using assms acc by (simp add: retry_one_def)
  next
    case (Some jinfo)
    show ?thesis
    proof (cases "status jinfo \<noteq> FAILED")
      case True
      then show ?thesis using assms acc Some by (simp add: retry_one_def)
    next
      case False
      obtain r d1 where sel: "select_connection_round_robin d = (r, d1)"
        by (cases "select_connection_round_robin d")
      note f = select_frame [OF sel]
      show ?thesis
      proof (cases r)
        case None
        have "drain_inv i m lg
                (d1, if retry_count jinfo < max_retry_count d1
                     then insort_insert j fa else fa)"
          using inv f \<open>map_of (global_subscriptions d) j = Some jinfo\<close> False
          by (auto simp: drain_inv_def set_insort_insert)
        then show ?thesis
          using acc \<open>map_of (global_subscriptions d) j = Some jinfo\<close> False sel None
          by (simp add: retry_one_def)
      next
        case (Some c)
        let ?cid = "connection_id (config c)"
        let ?d2 = "modify_subscription j
                     (\<lambda>i. i\<lparr> assigned_connection_id := ?cid, status := SUBSCRIBING \<rparr>) d1"
        obtain ok d3 where e: "execute_subscription api ?d2 j ?cid = (ok, d3)"
          by (cases "execute_subscription api ?d2 j ?cid")
        note g = execute_subscription_frame [OF e]
        have gs3: "global_subscriptions d3 =
                   map_modify j (\<lambda>i. i\<lparr> assigned_connection_id := ?cid, status := SUBSCRIBING \<rparr>)
                     (global_subscriptions d)"
          using g(1) f(1) by (simp add: modify_subscription_simps)
        have m3: "max_retry_count d3 = m" "retry_inserts d3 = lg" "retry_set d3 = []"
          using g(2,3,4) f(2,3,4) inv(2,3,4) by (simp_all add: modify_subscription_simps)
        have bad: "drain_inv i m lg
                (modify_subscription j (\<lambda>i. i\<lparr> status := FAILED \<rparr>) d3,
                 if retry_count jinfo < max_retry_count d3 then insort_insert j fa else fa)"
          using inv \<open>map_of (global_subscriptions d) j = Some jinfo\<close> gs3 m3 False
          by (auto simp: drain_inv_def set_insort_insert modify_subscription_simps
              map_of_map_modify)
        have good: "drain_inv i m lg
                (modify_subscription j (\<lambda>i. i\<lparr> retry_count := 0 \<rparr>) d3, fa)"
          using inv \<open>map_of (global_subscriptions d) j = Some jinfo\<close> gs3 m3
          by (auto simp: drain_inv_def modify_subscription_simps map_of_map_modify)
        show ?thesis
          using acc \<open>map_of (global_subscriptions d) j = Some jinfo\<close> False sel Some e bad good
          by (simp add: retry_one_def Let_def)
      qed
    qed
  qed
qed

lemma fold_retry_one_inv:
  "drain_inv i m lg acc \<Longrightarrow> drain_inv i m lg (fold (retry_one api) xs acc)"
  by (induction xs arbitrary: acc) (simp_all add: retry_one_inv)

lemma fold_retry_set_insert_log:
  "retry_inserts (fold retry_set_insert xs d) = retry_inserts d @ xs"
  by (induction xs arbitrary: d) (simp_all add: retry_set_insert_simps)

lemma fold_retry_set_insert_set:
  "set (retry_set (fold retry_set_insert xs d)) = set (retry_set d) \<union> set xs"
  by (induction xs arbitrary: d) (auto simp: retry_set_insert_simps set_insort_insert)

lemma count_list_notin: "i \<notin> set xs \<Longrightarrow> count_list (ys @ xs) i = count_list ys i"
  by (induction xs arbitrary: ys) auto

lemma process_pending_guard:
  assumes "map_of (global_subscriptions d) i = Some info"
    and "max_retry_count d \<le> retry_count info"
  shows "count_list (retry_inserts (process_pending_subscriptions api d)) i =
         count_list (retry_inserts d) i"
    and "i \<notin> set (retry_set (process_pending_subscriptions api d))"
proof -
  let ?d0 = "d\<lparr> retry_set := [] \<rparr>"
  have "drain_inv i (max_retry_count d) (retry_inserts d) (?d0, [])"
    using assms by (simp add: drain_inv_def)
  then have inv: "drain_inv i (max_retry_count d) (retry_inserts d)
                    (fold (retry_one api) (retry_set d) (?d0, []))"
    by (rule fold_retry_one_inv)
  obtain d1 fa where r: "fold (retry_one api) (retry_set d) (?d0, []) = (d1, fa)"
    by (cases "fold (retry_one api) (retry_set d) (?d0, [])")
  from inv r have fa: "i \<notin> set fa" "retry_inserts d1 = retry_inserts d" "retry_set d1 = []"
    by (auto simp: drain_inv_def split: option.splits)
  then show "count_list (retry_inserts (process_pending_subscriptions api d)) i =
         count_list (retry_inserts d) i"
    using r
    by (simp add: process_pending_subscriptions_def Let_def fold_retry_set_insert_log
        count_list_notin)
  show "i \<notin> set (retry_set (process_pending_subscriptions api d))"
    using r fa
    by (simp add: process_pending_subscriptions_def Let_def fold_retry_set_insert_set)
qed

lemma failed_twice_eq:
  "failed_twice =
   \<lparr> global_subscriptions =
       [(''rb2501'',
         \<lparr> sub_instrument_id = ''rb2501'', assigned_connection_id = ''c1'', status = FAILED,
           requesting_sessions = {''s1''}, created_time = 0, last_update_time = 0,
           retry_count = 2 \<rparr>)],
     session_subscriptions = [''s1'' \<mapsto> [''rb2501'']],
     connection_subscriptions = Map.empty, round_robin_counter = 1,
     retry_set = [''rb2501''], max_retry_count = 3,
     connections = [(''c1'', conn_c1\<lparr> subscribed_instruments := [''rb2501''] \<rparr>)],
     wire_calls = [SubscribeMarketData ''c1'' ''rb2501''],
     retry_inserts = [''rb2501'', ''rb2501''] \<rparr>"
  unfolding failed_twice_def dispatcher_run_def
  by (simp add: added_on_c1)
     (simp add: on_subscription_failed_def modify_subscription_def map_modify_def
        retry_set_insert_def insort_insert_key_def int_incr_def Let_def)

lemma failed_thrice_eq:
  "failed_thrice =
   \<lparr> global_subscriptions =
       [(''rb2501'',
         \<lparr> sub_instrument_id = ''rb2501'', assigned_connection_id = ''c1'', status = FAILED,
           requesting_sessions = {''s1''}, created_time = 0, last_update_time = 0,
           retry_count = 3 \<rparr>)],
     session_subscriptions = [''s1'' \<mapsto> [''rb2501'']],
     connection_subscriptions = Map.empty, round_robin_counter = 1,
     retry_set = [''rb2501''], max_retry_count = 3,
     connections = [(''c1'', conn_c1\<lparr> subscribed_instruments := [''rb2501''] \<rparr>)],
     wire_calls = [SubscribeMarketData ''c1'' ''rb2501''],
     retry_inserts = [''rb2501'', ''rb2501''] \<rparr>"
  unfolding failed_thrice_def dispatcher_run_def
  by (simp add: added_on_c1)
     (simp add: on_subscription_failed_def modify_subscription_def map_modify_def
        retry_set_insert_def insort_insert_key_def int_incr_def Let_def)

lemma fail_then_drain:
  assumes "d = \<lparr> global_subscriptions =
       [(''rb2501'',
         \<lparr> sub_instrument_id = ''rb2501'', assigned_connection_id = ''c1'', status = SUBSCRIBING,
           requesting_sessions = {''s1''}, created_time = 0, last_update_time = 0,
           retry_count = 0 \<rparr>)],
     session_subscriptions = [''s1'' \<mapsto> [''rb2501'']],
     connection_subscriptions = Map.empty, round_robin_counter = n, retry_set = [],
     max_retry_count = 3,
     connections = [(''c1'', conn_c1\<lparr> subscribed_instruments := [''rb2501''] \<rparr>)],
     wire_calls = [SubscribeMarketData ''c1'' ''rb2501''], retry_inserts = lg \<rparr>"
  shows "process_pending_subscriptions api_accepts
           (on_subscription_failed 0 d ''c1'' ''rb2501'') =
         d\<lparr> round_robin_counter := n + 1, retry_inserts := lg @ [''rb2501''] \<rparr>"
  unfolding assms
  by (simp add: dispatcher_defs conn_c1_def)

lemma resent_thrice_eq:
  "resent_thrice =
   \<lparr> global_subscriptions =
       [(''rb2501'',
         \<lparr> sub_instrument_id = ''rb2501'', assigned_connection_id = ''c1'', status = FAILED,
           requesting_sessions = {''s1''}, created_time = 0, last_update_time = 0,
           retry_count = 1 \<rparr>)],
     session_subscriptions = [''s1'' \<mapsto> [''rb2501'']],
     connection_subscriptions = Map.empty, round_robin_counter = 4,
     retry_set = [''rb2501''], max_retry_count = 3,
     connections = [(''c1'', conn_c1\<lparr> subscribed_instruments := [''rb2501''] \<rparr>)],
     wire_calls = [SubscribeMarketData ''c1'' ''rb2501''],
     retry_inserts = [''rb2501'', ''rb2501'', ''rb2501'', ''rb2501''] \<rparr>"
  unfolding resent_thrice_def dispatcher_run_def
  apply (simp add: added_on_c1)
  apply (subst fail_then_drain, rule refl)
  apply simp
  apply (subst fail_then_drain, rule refl)
  apply simp
  apply (subst fail_then_drain, rule refl)
  apply (simp add: on_subscription_failed_def modify_subscription_def map_modify_def
        retry_set_insert_def insort_insert_key_def int_incr_def Let_def)
  done

lemma failed_thrice_resent:
  "retry_inserts (dispatcher_run api_accepts 0 failed_thrice
     [MaintenanceDrain, SubscriptionFailed ''c1'' ''rb2501'']) =
   [''rb2501'', ''rb2501'', ''rb2501'']"
  unfolding failed_thrice_eq dispatcher_run_def
  by (simp add: dispatcher_defs conn_c1_def)

section \<open>The retry limit\<close>

text \<open>
  Claim C8, amended. For a record whose retry count is an \<open>int\<close> below \<open>INT_MAX\<close>:
  a failure callback adds one to the count and inserts the instrument into the
  retry set exactly when the new count is below \<open>max_retry_count\<close>, so the callback
  that takes the count to the limit does not insert it; and in every step of the
  dispatcher (a session adding a subscription, a failure callback, a drain of the
  retry set by the maintenance task) taken when the count has reached
  \<open>max_retry_count\<close>, the instrument is not inserted into the retry set: the number
  of its inserts does not grow, and it is in the retry set afterwards only if it
  was before.
\<close>

theorem retry_limit_guard:
  assumes "map_of (global_subscriptions d) i = Some info"
    and "- (2 ^ 31) \<le> retry_count info" and "retry_count info < 2 ^ 31 - 1"
  shows "map_option retry_count
           (map_of (global_subscriptions (on_subscription_failed now d cid i)) i) =
           Some (retry_count info + 1) \<and>
         count_list (retry_inserts (on_subscription_failed now d cid i)) i =
           count_list (retry_inserts d) i +
           (if retry_count info + 1 < max_retry_count d then 1 else 0) \<and>
         (max_retry_count d \<le> retry_count info \<longrightarrow>
            count_list (retry_inserts (dispatcher_step api now d op)) i =
              count_list (retry_inserts d) i \<and>
            (i \<in> set (retry_set (dispatcher_step api now d op)) \<longrightarrow>
               i \<in> set (retry_set d)))"
proof (intro conjI impI)
  note inc = int_incr_in_range [OF assms(2,3)]
  show "map_option retry_count
          (map_of (global_subscriptions (on_subscription_failed now d cid i)) i) =
        Some (retry_count info + 1)"
    using on_subscription_failed_count [OF assms(1), of now cid] inc by simp
  show "count_list (retry_inserts (on_subscription_failed now d cid i)) i =
          count_list (retry_inserts d) i +
          (if retry_count info + 1 < max_retry_count d then 1 else 0)"
    using assms(1) inc by (simp add: on_subscription_failed_retry_inserts)
next
  assume lim: "max_retry_count d \<le> retry_count info"
  note inc = int_incr_in_range [OF assms(2,3)]
  show "count_list (retry_inserts (dispatcher_step api now d op)) i =
          count_list (retry_inserts d) i"
  proof (cases op)
    case (AddSubscription s j)
    show ?thesis
      using add_subscription_retry_inserts [of api now d s j] assms(1) AddSubscription
      by auto
  next
    case (SubscriptionFailed c j)
    show ?thesis
      using assms(1) lim inc SubscriptionFailed
      by (auto simp: on_subscription_failed_retry_inserts split: option.splits)
  next
    case MaintenanceDrain
    show ?thesis
      using process_pending_guard(1) [OF assms(1) lim, of api] MaintenanceDrain by simp
  qed
next
  assume lim: "max_retry_count d \<le> retry_count info"
    and mem: "i \<in> set (retry_set (dispatcher_step api now d op))"
  note inc = int_incr_in_range [OF assms(2,3)]
  show "i \<in> set (retry_set d)"
  proof (cases op)
    case (AddSubscription s j)
    show ?thesis
      using add_subscription_retry_inserts [of api now d s j] assms(1) AddSubscription mem
      by (auto simp: set_insort_insert)
  next
    case (SubscriptionFailed c j)
    show ?thesis
      using assms(1) lim inc SubscriptionFailed mem
      by (auto simp: on_subscription_failed_retry_inserts set_insort_insert
          split: option.splits if_splits)
  next
    case MaintenanceDrain
    show ?thesis
      using process_pending_guard(2) [OF assms(1) lim, of api] MaintenanceDrain mem by simp
  qed
qed

theorem retry_limit_guard_witness:
  "map_option retry_count (map_of (global_subscriptions failed_twice) ''rb2501'') = Some 2 \<and>
   max_retry_count failed_twice = 3 \<and>
   count_list (retry_inserts failed_twice) ''rb2501'' = 2 \<and>
   map_option retry_count
     (map_of (global_subscriptions (on_subscription_failed 0 failed_twice ''c1'' ''rb2501''))
        ''rb2501'') = Some 3 \<and>
   count_list (retry_inserts (on_subscription_failed 0 failed_twice ''c1'' ''rb2501''))
     ''rb2501'' = 2 \<and>
   map_option retry_count (map_of (global_subscriptions failed_thrice) ''rb2501'') = Some 3 \<and>
   max_retry_count failed_thrice = 3 \<and>
   count_list (retry_inserts failed_thrice) ''rb2501'' = 2 \<and>
   count_list (retry_inserts (dispatcher_step api_accepts 0 failed_thrice MaintenanceDrain))
     ''rb2501'' = 2"
proof -
  have h2: "map_of (global_subscriptions failed_twice) ''rb2501'' =
           Some \<lparr> sub_instrument_id = ''rb2501'', assigned_connection_id = ''c1'', status = FAILED,
                  requesting_sessions = {''s1''}, created_time = 0, last_update_time = 0,
                  retry_count = 2 \<rparr>"
    by (simp add: failed_twice_eq)
  have c2: "count_list (retry_inserts failed_twice) ''rb2501'' = 2"
    "max_retry_count failed_twice = 3"
    by (simp_all add: failed_twice_eq)
  have h3: "map_of (global_subscriptions failed_thrice) ''rb2501'' =
           Some \<lparr> sub_instrument_id = ''rb2501'', assigned_connection_id = ''c1'', status = FAILED,
                  requesting_sessions = {''s1''}, created_time = 0, last_update_time = 0,
                  retry_count = 3 \<rparr>"
    by (simp add: failed_thrice_eq)
  have c3: "count_list (retry_inserts failed_thrice) ''rb2501'' = 2"
    "max_retry_count failed_thrice = 3"
    by (simp_all add: failed_thrice_eq)
  show ?thesis
    using retry_limit_guard [OF h2, where now = 0 and cid = "''c1''" and api = api_accepts
        and op = MaintenanceDrain]
      retry_limit_guard [OF h3, where now = 0 and cid = "''c1''" and api = api_accepts
        and op = MaintenanceDrain] h2 c2 h3 c3
    by simp
qed

text \<open>
  Claim C8 as stated fails with max_retry_count = 3. A resend that succeeds resets
  the retry count: when each failure callback is followed by a drain, the fourth
  failure callback inserts the instrument a fourth time. And a record that is in
  the retry set when its count reaches 3 is resent by the next drain, and inserted
  again by the failure callback after it.
\<close>

theorem retry_reset_counterexample:
  "max_retry_count resent_thrice = 3 \<and>
   count_list (retry_inserts resent_thrice) ''rb2501'' = 4 \<and>
   map_option retry_count (map_of (global_subscriptions failed_thrice) ''rb2501'') = Some 3 \<and>
   count_list (retry_inserts failed_thrice) ''rb2501'' = 2 \<and>
   count_list (retry_inserts
     (dispatcher_run api_accepts 0 failed_thrice
        [MaintenanceDrain, SubscriptionFailed ''c1'' ''rb2501''])) ''rb2501'' = 3"
  by (simp add: failed_thrice_resent) (simp add: resent_thrice_eq failed_thrice_eq)

section \<open>Replies to invalid frames\<close>

text \<open>
  Claim C9. A frame that does not parse, and a subscribe_quote frame without
  \<open>ins_list\<close>, are answered with an error frame and the channel is not closed. A
  frame with an unknown \<open>aid\<close>, or with none, is not answered at all: the handler
  does nothing.
\<close>

theorem unknown_aid_unanswered:
  "handle_message session_id now HasParseError =
     [SendMessage (JObject [(''type'', JString ''error''),
                            (''message'', JString ''Invalid JSON format''),
                            (''timestamp'', JInt64 now)])] \<and>
   handle_message session_id now (Document [(''aid'', JString ''subscribe_quote'')]) =
     [SendMessage (JObject [(''type'', JString ''error''),
                            (''message'', JString ''Missing or invalid 'ins_list' field''),
                            (''timestamp'', JInt64 now)])] \<and>
   handle_message session_id now (Document [(''aid'', JString ''unsubscribe_quote'')]) = [] \<and>
   handle_message session_id now (Document [(''aid'', JInt 1)]) = [] \<and>
   handle_message session_id now (Document []) = []"
  by (simp add: handle_message_def send_error_def)

section \<open>Sessions sharing a subscription\<close>

lemma available_lookup:
  assumes "wf_dispatcher d" and "c \<in> set (get_available_connections d)"
  shows "map_of (connections d) (connection_id (config c)) = Some c"
    and "conn_status c = LOGGED_IN" and "can_accept_more_subscriptions c"
proof -
  from assms(2) obtain k where k: "(k, c) \<in> set (connections d)"
    and st: "conn_status c = LOGGED_IN" "can_accept_more_subscriptions c"
    by (auto simp: get_available_connections_def)
  from assms(1) k have "connection_id (config c) = k"
    by (auto simp: wf_dispatcher_def list_all_iff)
  moreover from assms(1) have "distinct (map fst (connections d))"
    by (simp add: wf_dispatcher_def)
  ultimately show "map_of (connections d) (connection_id (config c)) = Some c"
    using k by simp
  show "conn_status c = LOGGED_IN" "can_accept_more_subscriptions c"
    using st by simp_all
qed

lemma select_congr:
  assumes "connections d' = connections d" and "round_robin_counter d' = round_robin_counter d"
  shows "fst (select_connection_round_robin d') = fst (select_connection_round_robin d)"
  using assms
  by (simp add: select_connection_round_robin_def get_available_connections_def Let_def)

lemma select_some_available:
  assumes "fst (select_connection_round_robin d) = Some c"
  shows "c \<in> set (get_available_connections d)"
  using assms select_available [of d c "snd (select_connection_round_robin d)"]
  by (cases "select_connection_round_robin d") simp

lemma add_existing:
  assumes "map_of (global_subscriptions d) i = Some info"
  shows "fst (add_subscription api now d s i) = True"
    and "wire_calls (snd (add_subscription api now d s i)) = wire_calls d"
    and "connections (snd (add_subscription api now d s i)) = connections d"
    and "map_of (global_subscriptions (snd (add_subscription api now d s i))) i =
           Some (info\<lparr> requesting_sessions := insert s (requesting_sessions info) \<rparr>)"
  using assms
  by (simp_all add: add_subscription_def session_subscriptions_insert_simps
      modify_subscription_simps map_of_map_modify)

lemma add_first:
  assumes wf: "wf_dispatcher d"
    and none: "map_of (global_subscriptions d) i = None"
    and sel: "fst (select_connection_round_robin d) = Some c"
    and fresh: "i \<notin> set (subscribed_instruments c)"
    and ok: "api (length (wire_calls d)) = 0"
  shows "held_on i (connection_id (config c)) {s}
           (wire_calls d @ [SubscribeMarketData (connection_id (config c)) i])
           (snd (add_subscription api now d s i))"
proof -
  let ?cid = "connection_id (config c)"
  let ?si = "(new_SubscriptionInfo i now)\<lparr> requesting_sessions := {s} \<rparr>"
  let ?d1 = "session_subscriptions_insert s i
               (d\<lparr> global_subscriptions := map_insert i ?si (global_subscriptions d) \<rparr>)"
  obtain r d2 where s2: "select_connection_round_robin ?d1 = (r, d2)"
    by (cases "select_connection_round_robin ?d1")
  note f = select_frame [OF s2]
  have "fst (select_connection_round_robin ?d1) = fst (select_connection_round_robin d)"
    by (rule select_congr) (simp_all add: session_subscriptions_insert_simps)
  then have r: "r = Some c"
    using s2 sel by simp
  note av = available_lookup [OF wf select_some_available [OF sel]]
  let ?d3 = "modify_subscription i
               (\<lambda>x. x\<lparr> assigned_connection_id := ?cid, status := SUBSCRIBING \<rparr>) d2"
  have c3: "connections ?d3 = connections d" "wire_calls ?d3 = wire_calls d"
    using f(5,6) by (simp_all add: modify_subscription_simps session_subscriptions_insert_simps)
  have g3: "global_subscriptions ?d3 =
            map_modify i (\<lambda>x. x\<lparr> assigned_connection_id := ?cid, status := SUBSCRIBING \<rparr>)
              (map_insert i ?si (global_subscriptions d))"
    using f(1) by (simp add: modify_subscription_simps session_subscriptions_insert_simps)
  let ?c' = "c\<lparr> subscribed_instruments := List.insert i (subscribed_instruments c) \<rparr>"
  have sub: "subscribe_instrument api c (wire_calls d) i =
             (True, ?c', wire_calls d @ [SubscribeMarketData ?cid i])"
    using av(2,3) fresh ok
    by (simp add: subscribe_instrument_def can_accept_more_subscriptions_def Let_def)
  have ex: "execute_subscription api ?d3 i ?cid =
            (True, ?d3\<lparr> connections := map_modify ?cid (\<lambda>_. ?c') (connections ?d3),
                        wire_calls := wire_calls d @ [SubscribeMarketData ?cid i] \<rparr>)"
    using av(1) sub c3 by (simp add: execute_subscription_def get_connection_def)
  have res: "snd (add_subscription api now d s i) =
             ?d3\<lparr> connections := map_modify ?cid (\<lambda>_. ?c') (connections ?d3),
                  wire_calls := wire_calls d @ [SubscribeMarketData ?cid i] \<rparr>"
    using none s2 r ex by (simp add: add_subscription_def Let_def)
  show ?thesis
    unfolding res held_on_def
    using av(1,2) c3 g3
    by (simp add: map_of_map_modify map_of_map_insert new_SubscriptionInfo_def)
qed

lemma add_held:
  assumes "held_on i cid R w d"
  shows "held_on i cid (insert s R) w (snd (add_subscription api now d s i))"
proof -
  from assms obtain info where info: "map_of (global_subscriptions d) i = Some info"
    by (auto simp: held_on_def split: option.splits)
  note a = add_existing [OF info, of api now s]
  show ?thesis
    using assms info a(2,3,4) by (simp add: held_on_def)
qed

lemma sessions_subscribe_held:
  "held_on i cid R w d \<Longrightarrow> held_on i cid (R \<union> set ss) w (sessions_subscribe api now i ss d)"
proof (induction ss arbitrary: d R)
  case Nil
  then show ?case by (simp add: sessions_subscribe_def)
next
  case (Cons s ss)
  from Cons.IH [OF add_held [OF Cons.prems, of s api now]]
  show ?case by (simp add: sessions_subscribe_def)
qed

lemma remove_frame:
  "global_subscriptions
     (case session_subscriptions d s of
        None \<Rightarrow> d
      | Some l \<Rightarrow>
          (let l' = removeAll i l in
           if l' = []
           then d\<lparr> session_subscriptions := (session_subscriptions d)(s := None) \<rparr>
           else d\<lparr> session_subscriptions := (session_subscriptions d)(s \<mapsto> l') \<rparr>)) =
   global_subscriptions d"
  "wire_calls
     (case session_subscriptions d s of
        None \<Rightarrow> d
      | Some l \<Rightarrow>
          (let l' = removeAll i l in
           if l' = []
           then d\<lparr> session_subscriptions := (session_subscriptions d)(s := None) \<rparr>
           else d\<lparr> session_subscriptions := (session_subscriptions d)(s \<mapsto> l') \<rparr>)) =
   wire_calls d"
  "connections
     (case session_subscriptions d s of
        None \<Rightarrow> d
      | Some l \<Rightarrow>
          (let l' = removeAll i l in
           if l' = []
           then d\<lparr> session_subscriptions := (session_subscriptions d)(s := None) \<rparr>
           else d\<lparr> session_subscriptions := (session_subscriptions d)(s \<mapsto> l') \<rparr>)) =
   connections d"
  by (simp_all add: Let_def split: option.splits)

lemma remove_absent:
  assumes "map_of (global_subscriptions d) i = None"
  shows "map_of (global_subscriptions (snd (remove_subscription api d s i))) i = None"
    and "wire_calls (snd (remove_subscription api d s i)) = wire_calls d"
  using assms
  by (simp_all add: remove_subscription_def remove_frame split del: if_split)

lemma execute_unsubscription_wire:
  "wire_calls (snd (execute_unsubscription api d i cid)) =
     (case map_of (connections d) cid of
        None \<Rightarrow> wire_calls d
      | Some c \<Rightarrow>
          if conn_status c = LOGGED_IN \<and> i \<in> set (subscribed_instruments c)
          then wire_calls d @ [UnSubscribeMarketData (connection_id (config c)) i]
          else wire_calls d)"
  by (simp add: execute_unsubscription_def get_connection_def unsubscribe_instrument_def Let_def
      split: option.splits)

lemma remove_keep:
  assumes "map_of (global_subscriptions d) i = Some info"
    and "requesting_sessions info - {s} \<noteq> {}"
  shows "wire_calls (snd (remove_subscription api d s i)) = wire_calls d"
    and "connections (snd (remove_subscription api d s i)) = connections d"
    and "map_of (global_subscriptions (snd (remove_subscription api d s i))) i =
           Some (info\<lparr> requesting_sessions := requesting_sessions info - {s} \<rparr>)"
  using assms
  by (simp_all add: remove_subscription_def remove_frame modify_subscription_simps
      map_of_map_modify split del: if_split)

lemma remove_last:
  assumes "map_of (global_subscriptions d) i = Some info"
    and "requesting_sessions info - {s} = {}"
  shows "map_of (global_subscriptions (snd (remove_subscription api d s i))) i = None"
    and "wire_calls (snd (remove_subscription api d s i)) =
           (case map_of (connections d) (assigned_connection_id info) of
              None \<Rightarrow> wire_calls d
            | Some c \<Rightarrow>
                if conn_status c = LOGGED_IN \<and> i \<in> set (subscribed_instruments c)
                then wire_calls d @ [UnSubscribeMarketData (connection_id (config c)) i]
                else wire_calls d)"
proof -
  let ?d1 = "case session_subscriptions d s of
        None \<Rightarrow> d
      | Some l \<Rightarrow>
          (let l' = removeAll i l in
           if l' = []
           then d\<lparr> session_subscriptions := (session_subscriptions d)(s := None) \<rparr>
           else d\<lparr> session_subscriptions := (session_subscriptions d)(s \<mapsto> l') \<rparr>)"
  let ?d2 = "modify_subscription i
               (\<lambda>x. x\<lparr> requesting_sessions := requesting_sessions x - {s} \<rparr>) ?d1"
  obtain ok d3 where e: "execute_unsubscription api ?d2 i (assigned_connection_id info) = (ok, d3)"
    by (cases "execute_unsubscription api ?d2 i (assigned_connection_id info)")
  have res: "snd (remove_subscription api d s i) =
             d3\<lparr> global_subscriptions := map_erase i (global_subscriptions d3) \<rparr>"
    using assms e
    by (simp add: remove_subscription_def remove_frame split del: if_split)
  show "map_of (global_subscriptions (snd (remove_subscription api d s i))) i = None"
    by (simp add: res map_of_map_erase)
  have "wire_calls d3 = wire_calls (snd (execute_unsubscription api ?d2 i (assigned_connection_id info)))"
    using e by simp
  also have "\<dots> = (case map_of (connections d) (assigned_connection_id info) of
              None \<Rightarrow> wire_calls d
            | Some c \<Rightarrow>
                if conn_status c = LOGGED_IN \<and> i \<in> set (subscribed_instruments c)
                then wire_calls d @ [UnSubscribeMarketData (connection_id (config c)) i]
                else wire_calls d)"
    unfolding execute_unsubscription_wire
    by (simp only: modify_subscription_simps remove_frame)
  finally show "wire_calls (snd (remove_subscription api d s i)) =
           (case map_of (connections d) (assigned_connection_id info) of
              None \<Rightarrow> wire_calls d
            | Some c \<Rightarrow>
                if conn_status c = LOGGED_IN \<and> i \<in> set (subscribed_instruments c)
                then wire_calls d @ [UnSubscribeMarketData (connection_id (config c)) i]
                else wire_calls d)"
    by (simp add: res)
qed

lemma remove_held_keep:
  assumes "held_on i cid R w d" and "R - {s} \<noteq> {}"
  shows "held_on i cid (R - {s}) w (snd (remove_subscription api d s i))"
proof -
  from assms(1) obtain info where info: "map_of (global_subscriptions d) i = Some info"
    "requesting_sessions info = R"
    by (auto simp: held_on_def split: option.splits)
  note k = remove_keep [OF info(1), of s api]
  show ?thesis
    using assms info k by (simp add: held_on_def)
qed

lemma remove_held_last:
  assumes "held_on i cid R w d" and "R - {s} = {}"
  shows "map_of (global_subscriptions (snd (remove_subscription api d s i))) i = None"
    and "wire_calls (snd (remove_subscription api d s i)) = w @ [UnSubscribeMarketData cid i]"
proof -
  from assms(1) obtain info where info: "map_of (global_subscriptions d) i = Some info"
    "requesting_sessions info = R" "assigned_connection_id info = cid"
    by (auto simp: held_on_def split: option.splits)
  note l = remove_last [OF info(1), of s api]
  show "map_of (global_subscriptions (snd (remove_subscription api d s i))) i = None"
    using l(1) assms(2) info(2) by simp
  show "wire_calls (snd (remove_subscription api d s i)) = w @ [UnSubscribeMarketData cid i]"
    using l(2) assms info(2,3) by (auto simp: held_on_def split: option.splits)
qed

lemma sessions_leave_absent:
  "map_of (global_subscriptions d) i = None \<Longrightarrow>
   map_of (global_subscriptions (sessions_leave api i rs d)) i = None \<and>
   wire_calls (sessions_leave api i rs d) = wire_calls d"
proof (induction rs arbitrary: d)
  case Nil
  then show ?case by (simp add: sessions_leave_def)
next
  case (Cons s rs)
  note a = remove_absent [OF Cons.prems, of api s]
  from Cons.IH [OF a(1)] a(2) show ?case
    by (simp add: sessions_leave_def)
qed

lemma sessions_leave_held:
  assumes "held_on i cid R w d" and "R \<noteq> {}" and "R \<subseteq> set rs"
  shows "map_of (global_subscriptions (sessions_leave api i rs d)) i = None \<and>
         wire_calls (sessions_leave api i rs d) = w @ [UnSubscribeMarketData cid i]"
  using assms
proof (induction rs arbitrary: d R)
  case Nil
  then show ?case by simp
next
  case (Cons s rs)
  let ?d = "snd (remove_subscription api d s i)"
  have unf: "sessions_leave api i (s # rs) d = sessions_leave api i rs ?d"
    by (simp add: sessions_leave_def)
  show ?case
  proof (cases "R - {s} = {}")
    case True
    note l = remove_held_last [OF Cons.prems(1) True, of api]
    from sessions_leave_absent [OF l(1), of api rs] l(2) show ?thesis
      unfolding unf by simp
  next
    case False
    note k = remove_held_keep [OF Cons.prems(1) False, of api]
    have "R - {s} \<subseteq> set rs"
      using Cons.prems(3) by auto
    from Cons.IH [OF k False this] show ?thesis
      unfolding unf .
  qed
qed

section \<open>Deduplication of subscriptions\<close>

text \<open>
  Claim C5, amended. If a record for the instrument exists, \<open>add_subscription\<close>
  returns true, issues no wire call and adds the session to the record's
  requesting sessions. \<open>remove_subscription\<close> on a record that other sessions still
  request issues no wire call and keeps the record without the session; when no
  session is left it deletes the record, and issues one UnSubscribeMarketData call
  if the assigned connection is logged in and holds the instrument. So when the
  instrument has no record, the first \<open>add_subscription\<close> selects a connection that
  does not hold the instrument yet, and the upstream accepts the subscribe call:
  the sessions of a non-empty list subscribing the instrument, and then all of
  them leaving in any order, cause exactly one SubscribeMarketData call followed by
  exactly one UnSubscribeMarketData call, and the record is gone.
\<close>

theorem subscription_deduplication:
  "(map_of (global_subscriptions e) j = Some info \<longrightarrow>
      fst (add_subscription api now e s j) = True \<and>
      wire_calls (snd (add_subscription api now e s j)) = wire_calls e \<and>
      map_of (global_subscriptions (snd (add_subscription api now e s j))) j =
        Some (info\<lparr> requesting_sessions := insert s (requesting_sessions info) \<rparr>)) \<and>
   (map_of (global_subscriptions e) j = Some info \<and> requesting_sessions info - {s'} \<noteq> {} \<longrightarrow>
      wire_calls (snd (remove_subscription api e s' j)) = wire_calls e \<and>
      map_of (global_subscriptions (snd (remove_subscription api e s' j))) j =
        Some (info\<lparr> requesting_sessions := requesting_sessions info - {s'} \<rparr>)) \<and>
   (map_of (global_subscriptions e) j = Some info \<and> requesting_sessions info - {s''} = {} \<longrightarrow>
      map_of (global_subscriptions (snd (remove_subscription api e s'' j))) j = None \<and>
      wire_calls (snd (remove_subscription api e s'' j)) =
        (case map_of (connections e) (assigned_connection_id info) of
           None \<Rightarrow> wire_calls e
         | Some c' \<Rightarrow>
             if conn_status c' = LOGGED_IN \<and> j \<in> set (subscribed_instruments c')
             then wire_calls e @ [UnSubscribeMarketData (connection_id (config c')) j]
             else wire_calls e)) \<and>
   (wf_dispatcher d \<and> map_of (global_subscriptions d) i = None \<and>
    fst (select_connection_round_robin d) = Some c \<and> i \<notin> set (subscribed_instruments c) \<and>
    api (length (wire_calls d)) = 0 \<and> ss \<noteq> [] \<and> set rs = set ss \<longrightarrow>
      wire_calls (sessions_leave api i rs (sessions_subscribe api now i ss d)) =
        wire_calls d @ [SubscribeMarketData (connection_id (config c)) i,
                        UnSubscribeMarketData (connection_id (config c)) i] \<and>
      map_of (global_subscriptions
        (sessions_leave api i rs (sessions_subscribe api now i ss d))) i = None)"
proof (intro conjI impI)
  assume "map_of (global_subscriptions e) j = Some info"
  note a = add_existing [OF this, of api now s]
  show "fst (add_subscription api now e s j) = True" by (rule a(1))
  show "wire_calls (snd (add_subscription api now e s j)) = wire_calls e" by (rule a(2))
  show "map_of (global_subscriptions (snd (add_subscription api now e s j))) j =
        Some (info\<lparr> requesting_sessions := insert s (requesting_sessions info) \<rparr>)"
    by (rule a(4))
next
  assume h: "map_of (global_subscriptions e) j = Some info \<and> requesting_sessions info - {s'} \<noteq> {}"
  note k = remove_keep [OF conjunct1 [OF h] conjunct2 [OF h], of api]
  show "wire_calls (snd (remove_subscription api e s' j)) = wire_calls e" by (rule k(1))
  show "map_of (global_subscriptions (snd (remove_subscription api e s' j))) j =
        Some (info\<lparr> requesting_sessions := requesting_sessions info - {s'} \<rparr>)"
    by (rule k(3))
next
  assume h: "map_of (global_subscriptions e) j = Some info \<and> requesting_sessions info - {s''} = {}"
  note l = remove_last [OF conjunct1 [OF h] conjunct2 [OF h], of api]
  show "map_of (global_subscriptions (snd (remove_subscription api e s'' j))) j = None"
    by (rule l(1))
  show "wire_calls (snd (remove_subscription api e s'' j)) =
        (case map_of (connections e) (assigned_connection_id info) of
           None \<Rightarrow> wire_calls e
         | Some c' \<Rightarrow>
             if conn_status c' = LOGGED_IN \<and> j \<in> set (subscribed_instruments c')
             then wire_calls e @ [UnSubscribeMarketData (connection_id (config c')) j]
             else wire_calls e)"
    by (rule l(2))
next
  assume h: "wf_dispatcher d \<and> map_of (global_subscriptions d) i = None \<and>
    fst (select_connection_round_robin d) = Some c \<and> i \<notin> set (subscribed_instruments c) \<and>
    api (length (wire_calls d)) = 0 \<and> ss \<noteq> [] \<and> set rs = set ss"
  then obtain s1 ss' where ss: "ss = s1 # ss'"
    by (cases ss) auto
  let ?cid = "connection_id (config c)"
  let ?w = "wire_calls d @ [SubscribeMarketData ?cid i]"
  have "held_on i ?cid {s1} ?w (snd (add_subscription api now d s1 i))"
    using h by (intro add_first) simp_all
  then have "held_on i ?cid ({s1} \<union> set ss') ?w
               (sessions_subscribe api now i ss' (snd (add_subscription api now d s1 i)))"
    by (rule sessions_subscribe_held)
  then have held: "held_on i ?cid (set ss) ?w (sessions_subscribe api now i ss d)"
    by (simp add: ss sessions_subscribe_def)
  have "set ss \<noteq> {}" "set ss \<subseteq> set rs"
    using h by auto
  note fin = sessions_leave_held [OF held this, of api]
  show "wire_calls (sessions_leave api i rs (sessions_subscribe api now i ss d)) =
        wire_calls d @ [SubscribeMarketData ?cid i, UnSubscribeMarketData ?cid i]"
    using fin by simp
  show "map_of (global_subscriptions
        (sessions_leave api i rs (sessions_subscribe api now i ss d))) i = None"
    using fin by simp
qed

theorem subscription_deduplication_witness:
  "wire_calls
     (sessions_leave api_accepts ''rb2501'' [''s2'', ''s1'']
        (sessions_subscribe api_accepts 0 ''rb2501'' [''s1'', ''s2'']
           (SubscriptionDispatcher_new 3 [(''c1'', conn_c1)]))) =
     [SubscribeMarketData ''c1'' ''rb2501'', UnSubscribeMarketData ''c1'' ''rb2501''] \<and>
   fst (add_subscription api_accepts 0
     (snd (add_subscription api_accepts 0 (SubscriptionDispatcher_new 3 [(''c1'', conn_c1)])
        ''s1'' ''rb2501'')) ''s2'' ''rb2501'') = True \<and>
   wire_calls (snd (add_subscription api_accepts 0
     (snd (add_subscription api_accepts 0 (SubscriptionDispatcher_new 3 [(''c1'', conn_c1)])
        ''s1'' ''rb2501'')) ''s2'' ''rb2501'')) = [SubscribeMarketData ''c1'' ''rb2501''] \<and>
   wire_calls (snd (remove_subscription api_accepts
     (snd (add_subscription api_accepts 0 (SubscriptionDispatcher_new 3 [(''c1'', conn_c1)])
        ''s1'' ''rb2501'')) ''s2'' ''rb2501'')) = [SubscribeMarketData ''c1'' ''rb2501''] \<and>
   wire_calls (snd (remove_subscription api_accepts
     (snd (add_subscription api_accepts 0 (SubscriptionDispatcher_new 3 [(''c1'', conn_c1)])
        ''s1'' ''rb2501'')) ''s1'' ''rb2501'')) =
     [SubscribeMarketData ''c1'' ''rb2501'', UnSubscribeMarketData ''c1'' ''rb2501'']"
proof -
  let ?d = "SubscriptionDispatcher_new 3 [(''c1'', conn_c1)]"
  let ?e = "snd (add_subscription api_accepts 0 ?d ''s1'' ''rb2501'')"
  let ?info = "\<lparr> sub_instrument_id = ''rb2501'', assigned_connection_id = ''c1'',
                 status = SUBSCRIBING, requesting_sessions = {''s1''}, created_time = 0,
                 last_update_time = 0, retry_count = 0 \<rparr>"
  have e1: "map_of (global_subscriptions ?e) ''rb2501'' = Some ?info"
    by (simp add: added_on_c1)
  have e2: "requesting_sessions ?info - {''s2''} \<noteq> {}"
    by simp
  have e3: "requesting_sessions ?info - {''s1''} = {}"
    by simp
  have e4: "map_of (connections ?e) (assigned_connection_id ?info) =
            Some (conn_c1\<lparr> subscribed_instruments := [''rb2501''] \<rparr>)"
    "wire_calls ?e = [SubscribeMarketData ''c1'' ''rb2501'']"
    by (simp_all add: added_on_c1)
  have c: "conn_status (conn_c1\<lparr> subscribed_instruments := [''rb2501''] \<rparr>) = LOGGED_IN"
    "connection_id (config (conn_c1\<lparr> subscribed_instruments := [''rb2501''] \<rparr>)) = ''c1''"
    "connection_id (config conn_c1) = ''c1''"
    by (simp_all add: conn_c1_def)
  have d1: "wf_dispatcher ?d"
    by (simp add: wf_dispatcher_def SubscriptionDispatcher_new_def conn_c1_def)
  have d2: "map_of (global_subscriptions ?d) ''rb2501'' = None"
    by (simp add: SubscriptionDispatcher_new_def)
  have d3: "fst (select_connection_round_robin ?d) = Some conn_c1"
    by (simp add: select_connection_round_robin_def get_available_connections_def
        can_accept_more_subscriptions_def static_cast_size_t_def SubscriptionDispatcher_new_def
        conn_c1_def)
  have d4: "''rb2501'' \<notin> set (subscribed_instruments conn_c1)"
    by (simp add: conn_c1_def)
  have d5: "api_accepts (length (wire_calls ?d)) = 0"
    by (simp add: api_accepts_def)
  have d6: "wire_calls ?d = []"
    by (simp add: SubscriptionDispatcher_new_def)
  have d7: "set [''s2'', ''s1''] = set [''s1'', ''s2'']"
    by auto
  show ?thesis
    using subscription_deduplication [of ?e "''rb2501''" ?info api_accepts 0 "''s2''" "''s2''"
        "''s1''" ?d "''rb2501''" conn_c1 "[''s1'', ''s2'']" "[''s2'', ''s1'']"]
      e1 e2 e3 e4 c d1 d2 d3 d4 d5 d6 d7
    by simp
qed

text \<open>
  Claim C5 as stated fails when no connection is logged in: two sessions subscribe
  the instrument and leave, and no SubscribeMarketData and no UnSubscribeMarketData
  call is issued.
\<close>

theorem no_connection_no_call_counterexample:
  "wire_calls
     (sessions_leave api_accepts ''rb2501'' [''s1'', ''s2'']
        (sessions_subscribe api_accepts 0 ''rb2501'' [''s1'', ''s2'']
           (SubscriptionDispatcher_new 3
              [(''c1'', conn_c1\<lparr> conn_status := DISCONNECTED \<rparr>)]))) = []"
  by (simp add: sessions_leave_def sessions_subscribe_def dispatcher_defs conn_c1_def
      remove_subscription_def execute_unsubscription_def map_erase_def)

section \<open>The client's view of a session\<close>

lemma client_view_snoc: "client_view (fs @ [f]) = read_frame (client_view fs) f"
  by (simp add: client_view_def)

lemma read_frame_rtn: "read_frame V (rtn_data_frame qs) = foldl read_quote V qs"
  by (simp add: read_frame_def frame_quotes_rtn_data)

lemma map_of_read_quote:
  "map_of (read_quote V (k, j)) =
   (map_of V)(k \<mapsto> apply_patch (json_members j)
                      (case map_of V k of None \<Rightarrow> zero_struct | Some r \<Rightarrow> r))"
  by (simp add: read_quote_def update_conv')

lemma keys_read_quote: "fst ` set (read_quote V (k, j)) = insert k (fst ` set V)"
  by (simp add: read_quote_def dom_update)

lemma view_ok_list:
  assumes "distinct (map fst L)"
  shows "view_ok K D V L \<longleftrightarrow>
         list_all (\<lambda>ir. fst ir \<in> D \<and> unassigned_fields_zero (snd ir) \<and>
                         map_of V (K (fst ir)) = Some (snd ir)) L \<and>
         list_all (\<lambda>kr. fst kr \<in> K ` fst ` set L) V"
proof -
  have m: "map_of L i = Some r \<longleftrightarrow> (i, r) \<in> set L" for i r
    using assms by simp
  have a: "(\<forall>i r. map_of L i = Some r \<longrightarrow>
               i \<in> D \<and> unassigned_fields_zero r \<and> map_of V (K i) = Some r) \<longleftrightarrow>
           list_all (\<lambda>ir. fst ir \<in> D \<and> unassigned_fields_zero (snd ir) \<and>
                         map_of V (K (fst ir)) = Some (snd ir)) L"
    unfolding m list_all_iff by auto
  have b: "(\<forall>k \<in> fst ` set V. \<exists>i r. map_of L i = Some r \<and> k = K i) \<longleftrightarrow>
           list_all (\<lambda>kr. fst kr \<in> K ` fst ` set L) V"
    unfolding m list_all_iff by force
  show ?thesis
    unfolding view_ok_def a b ..
qed

lemma session_synced_view:
  "session_synced s sid \<longleftrightarrow>
     cache_wf s \<and>
     (case sessions s sid of None \<Rightarrow> True | Some sess \<Rightarrow> distinct (subscriptions sess)) \<and>
     distinct (map fst (last_sent_structs s sid)) \<and>
     view_ok (display_key s) (fst ` set (instrument_index_map s))
       (client_view (frames_sent s sid)) (last_sent_structs s sid)"
  using view_ok_list [of "last_sent_structs s sid" "display_key s"
      "fst ` set (instrument_index_map s)" "client_view (frames_sent s sid)"]
  unfolding session_synced_def by blast

lemma view_absent:
  assumes inj: "inj_on K D" and ok: "view_ok K D V L" and iD: "i \<in> D"
    and none: "map_of L i = None"
  shows "map_of V (K i) = None"
proof (rule ccontr)
  assume "map_of V (K i) \<noteq> None"
  then obtain x where "map_of V (K i) = Some x" by auto
  then have "K i \<in> fst ` set V"
    by (force dest: map_of_SomeD)
  then obtain i' r where r: "map_of L i' = Some r" "K i = K i'"
    using ok unfolding view_ok_def by blast
  then have "i' \<in> D"
    using ok unfolding view_ok_def by blast
  then have "i = i'"
    using inj iD r(2) by (auto dest: inj_onD)
  then show False
    using r(1) none by simp
qed

lemma view_ok_update:
  assumes inj: "inj_on K D" and ok: "view_ok K D V L" and iD: "i \<in> D"
    and uz: "unassigned_fields_zero q"
    and v: "map_of V' = (map_of V)(K i \<mapsto> q)" and k: "fst ` set V' = insert (K i) (fst ` set V)"
  shows "view_ok K D V' (AList.update i q L)"
  unfolding view_ok_def
proof (rule conjI; intro allI impI ballI)
  fix i' r
  assume a: "map_of (AList.update i q L) i' = Some r"
  show "i' \<in> D \<and> unassigned_fields_zero r \<and> map_of V' (K i') = Some r"
  proof (cases "i' = i")
    case True
    then have "r = q"
      using a by (simp add: update_conv')
    then show ?thesis
      using True iD uz v by simp
  next
    case False
    then have b: "map_of L i' = Some r"
      using a by (simp add: update_conv')
    then have c: "i' \<in> D" "unassigned_fields_zero r" "map_of V (K i') = Some r"
      using ok unfolding view_ok_def by blast+
    have "K i' \<noteq> K i"
      using inj c(1) iD False by (auto dest: inj_onD)
    then show ?thesis
      using c v by simp
  qed
next
  fix k'
  assume "k' \<in> fst ` set V'"
  then have "k' = K i \<or> k' \<in> fst ` set V"
    unfolding k by simp
  then show "\<exists>i' r. map_of (AList.update i q L) i' = Some r \<and> k' = K i'"
  proof
    assume "k' = K i"
    then show ?thesis
      by (intro exI [of _ i] exI [of _ q]) (simp add: update_conv')
  next
    assume "k' \<in> fst ` set V"
    then obtain i' r where r: "map_of L i' = Some r" "k' = K i'"
      using ok unfolding view_ok_def by blast
    show ?thesis
    proof (cases "i' = i")
      case True
      then show ?thesis
        using r(2) by (intro exI [of _ i] exI [of _ q]) (simp add: update_conv')
    next
      case False
      then show ?thesis
        using r by (intro exI [of _ i'] exI [of _ r]) (simp add: update_conv')
    qed
  qed
qed

lemma view_ok_same:
  assumes ok: "view_ok K D V L" and old: "map_of L i = Some q"
  shows "view_ok K D V (AList.update i q L)"
proof -
  have "map_of (AList.update i q L) = map_of L"
    using old by (auto simp: update_conv' fun_eq_iff)
  then show ?thesis
    using ok unfolding view_ok_def by simp
qed

lemma json_members_full: "json_members (struct_to_json q) = struct_to_json_members q"
  by (simp add: json_members_def struct_to_json_def)

lemma json_members_diff:
  "json_members (compute_struct_diff a b) = compute_struct_diff_members a b"
  by (simp add: json_members_def compute_struct_diff_def)

lemma read_new:
  assumes inj: "inj_on K D" and ok: "view_ok K D V L" and iD: "i \<in> D"
    and uz: "unassigned_fields_zero q" and none: "map_of L i = None"
  shows "view_ok K D (read_quote V (K i, struct_to_json q)) (AList.update i q L)"
proof -
  have "map_of V (K i) = None"
    by (rule view_absent [OF inj ok iD none])
  then have "map_of (read_quote V (K i, struct_to_json q)) = (map_of V)(K i \<mapsto> q)"
    using patch_full_members [OF uz] by (simp add: map_of_read_quote json_members_full)
  then show ?thesis
    by (rule view_ok_update [OF inj ok iD uz]) (rule keys_read_quote)
qed

lemma read_changed:
  assumes inj: "inj_on K D" and ok: "view_ok K D V L" and iD: "i \<in> D"
    and uz: "unassigned_fields_zero q" and old: "map_of L i = Some a"
  shows "view_ok K D (read_quote V (K i, compute_struct_diff a q)) (AList.update i q L)"
proof -
  have o: "unassigned_fields_zero a" "map_of V (K i) = Some a"
    using ok old unfolding view_ok_def by blast+
  have "average a = average q"
    using o(1) uz by (simp add: unassigned_fields_zero_def)
  then have "apply_patch (compute_struct_diff_members a q) a = q"
    by (simp add: patch_diff_members)
  then have "map_of (read_quote V (K i, compute_struct_diff a q)) = (map_of V)(K i \<mapsto> q)"
    using o(2) by (simp add: map_of_read_quote json_members_diff)
  then show ?thesis
    by (rule view_ok_update [OF inj ok iD uz]) (rule keys_read_quote)
qed

lemma read_unchanged:
  assumes ok: "view_ok K D V L" and uz: "unassigned_fields_zero q"
    and old: "map_of L i = Some a" and same: "\<not> has_struct_changes a q"
  shows "view_ok K D V (AList.update i q L)"
proof -
  have o: "unassigned_fields_zero a"
    using ok old unfolding view_ok_def by blast
  have "average a = average q"
    using o uz by (simp add: unassigned_fields_zero_def)
  then have "a\<lparr> average := average q \<rparr> = a"
    by (cases a) simp
  then have "q = a"
    using no_changes_eq [OF same] by simp
  then show ?thesis
    using view_ok_same [OF ok old] by simp
qed

lemma peek_fold:
  assumes inj: "inj_on K D"
  shows "distinct (map fst U) \<Longrightarrow>
         \<forall>e \<in> set U. fst e \<in> D \<and> frame_key e = K (fst e) \<and>
                       unassigned_fields_zero (snap_data (snd e)) \<Longrightarrow>
         view_ok K D V Lc \<Longrightarrow>
         \<forall>e \<in> set U. map_of Lc (fst e) = map_of L0 (fst e) \<Longrightarrow>
         view_ok K D
           (foldl read_quote V (map (diff_quote_of L0) (diff_instruments_of U L0)))
           (fold (\<lambda>e m. AList.update (fst e) (snap_data (snd e)) m) U Lc)"
proof (induction U arbitrary: V Lc)
  case Nil
  then show ?case by (simp add: diff_instruments_of_def)
next
  case (Cons e U)
  let ?i = "fst e" and ?q = "snap_data (snd e)"
  have e: "?i \<in> D" "frame_key e = K ?i" "unassigned_fields_zero ?q"
    using Cons.prems(2) by simp_all
  have lc: "map_of Lc ?i = map_of L0 ?i"
    using Cons.prems(4) by simp
  have d: "distinct (map fst U)" "?i \<notin> fst ` set U"
    using Cons.prems(1) by simp_all
  have u: "\<forall>e \<in> set U. fst e \<in> D \<and> frame_key e = K (fst e) \<and>
                       unassigned_fields_zero (snap_data (snd e))"
    using Cons.prems(2) by simp
  have rest: "\<forall>e' \<in> set U. map_of (AList.update ?i ?q Lc) (fst e') = map_of L0 (fst e')"
  proof
    fix e' assume m: "e' \<in> set U"
    then have "fst e' \<in> fst ` set U" by (rule imageI)
    then have "fst e' \<noteq> ?i" using d(2) by metis
    then show "map_of (AList.update ?i ?q Lc) (fst e') = map_of L0 (fst e')"
      using Cons.prems(4) m by (simp add: update_conv')
  qed
  show ?case
  proof (cases "map_of L0 ?i")
    case None
    have ok1: "view_ok K D (read_quote V (K ?i, struct_to_json ?q)) (AList.update ?i ?q Lc)"
      using None lc by (intro read_new [OF inj Cons.prems(3) e(1,3)]) simp
    from Cons.IH [OF d(1) u ok1 rest] show ?thesis
      using None e(2) by (simp add: diff_instruments_of_def diff_quote_of_def)
  next
    case (Some a)
    show ?thesis
    proof (cases "has_struct_changes a ?q")
      case True
      have ok1: "view_ok K D (read_quote V (K ?i, compute_struct_diff a ?q))
                   (AList.update ?i ?q Lc)"
        using Some lc by (intro read_changed [OF inj Cons.prems(3) e(1,3)]) simp
      from Cons.IH [OF d(1) u ok1 rest] show ?thesis
        using Some True e(2) by (simp add: diff_instruments_of_def diff_quote_of_def)
    next
      case False
      have ok1: "view_ok K D V (AList.update ?i ?q Lc)"
        using Some lc False by (intro read_unchanged [OF Cons.prems(3) e(3)]) simp_all
      from Cons.IH [OF d(1) u ok1 rest] show ?thesis
        using Some False by (simp add: diff_instruments_of_def)
    qed
  qed
qed

lemma fold_update_distinct:
  "distinct (map fst L) \<Longrightarrow>
   distinct (map fst (fold (\<lambda>e m. AList.update (fst e) (f e) m) U L))"
  by (induction U arbitrary: L) (simp_all add: distinct_update)

lemma fold_update_lookup:
  assumes "distinct (map fst U)" and "e \<in> set U"
  shows "map_of (fold (\<lambda>e m. AList.update (fst e) (f e) m) U L) (fst e) = Some (f e)"
  using assms
proof (induction U arbitrary: L)
  case Nil
  then show ?case by simp
next
  case (Cons x U)
  show ?case
  proof (cases "e = x")
    case True
    have "fst x \<notin> fst ` set U" using Cons.prems(1) by simp
    then have "map_of (fold (\<lambda>e m. AList.update (fst e) (f e) m) U L') (fst x) = map_of L' (fst x)"
      for L'
      by (induction U arbitrary: L') (auto simp: update_conv')
    then show ?thesis
      using True by (simp add: update_conv')
  next
    case False
    then show ?thesis
      using Cons by simp
  qed
qed

section \<open>What a peek leaves unchanged\<close>

lemma send_message_sel:
  "instrument_index_map (send_message s x f) = instrument_index_map s"
  "display_instruments_cache (send_message s x f) = display_instruments_cache s"
  "market_data_cache (send_message s x f) = market_data_cache s"
  "session_last_sent_structs (send_message s x f) = session_last_sent_structs s"
  "session_last_versions (send_message s x f) = session_last_versions s"
  by (simp_all add: send_message_def split: option.splits)

lemma send_message_sessions:
  "sessions (send_message s x f) sid =
     (if x = sid
      then map_option (\<lambda>sess. sess\<lparr> sent_messages := sent_messages sess @ [f] \<rparr>) (sessions s sid)
      else sessions s sid)"
  by (simp add: send_message_def split: option.splits)

lemma update_session_state_sel:
  "instrument_index_map (update_session_state s x U) = instrument_index_map s"
  "display_instruments_cache (update_session_state s x U) = display_instruments_cache s"
  "market_data_cache (update_session_state s x U) = market_data_cache s"
  "sessions (update_session_state s x U) = sessions s"
  by (simp_all add: update_session_state_def Let_def)

lemma update_session_state_last:
  "last_sent_structs (update_session_state s x U) sid =
     (if x = sid
      then fold (\<lambda>e m. AList.update (fst e) (snap_data (snd e)) m) U (last_sent_structs s sid)
      else last_sent_structs s sid)"
  by (simp add: update_session_state_def last_sent_structs_def Let_def)

lemma last_sent_structs_cong:
  "session_last_sent_structs s' = session_last_sent_structs s \<Longrightarrow>
   last_sent_structs s' sid = last_sent_structs s sid"
  by (simp add: last_sent_structs_def)

lemma last_sent_send_message:
  "last_sent_structs (send_message s x f) sid = last_sent_structs s sid"
  by (simp add: last_sent_structs_def send_message_sel)

lemma frames_sent_cong: "sessions s' sid = sessions s sid \<Longrightarrow> frames_sent s' sid = frames_sent s sid"
  by (simp add: frames_sent_def)

lemma full_is_diff: "full_snapshot_frame U = diff_snapshot_frame U []"
proof -
  have "diff_quote_of [] = (\<lambda>entry. (frame_key entry, struct_to_json (snap_data (snd entry))))"
    by (rule ext) (simp add: diff_quote_of_def)
  then show ?thesis
    by (simp add: full_snapshot_frame_def diff_snapshot_frame_def diff_instruments_of_def)
qed

lemma diff_instruments_Nil: "diff_instruments_of U [] = U"
  by (simp add: diff_instruments_of_def)

lemma peek_sel:
  "instrument_index_map (handle_peek_message s x) = instrument_index_map s"
  "display_instruments_cache (handle_peek_message s x) = display_instruments_cache s"
  "market_data_cache (handle_peek_message s x) = market_data_cache s"
  by (simp_all add: handle_peek_message_def Let_def update_session_state_sel send_message_sel
      send_full_snapshot_def send_diff_snapshot_def split: option.splits)

lemma peek_subscriptions:
  "map_option subscriptions (sessions (handle_peek_message s x) sid) =
   map_option subscriptions (sessions s sid)"
  by (simp add: handle_peek_message_def Let_def update_session_state_sel send_message_sessions
      send_full_snapshot_def send_diff_snapshot_def option.map_comp comp_def
      split: option.splits)

lemma peek_other:
  assumes "x \<noteq> sid"
  shows "frames_sent (handle_peek_message s x) sid = frames_sent s sid"
    and "last_sent_structs (handle_peek_message s x) sid = last_sent_structs s sid"
  using assms
  by (simp_all add: handle_peek_message_def Let_def frames_sent_def last_sent_structs_def
      update_session_state_def send_message_def send_full_snapshot_def send_diff_snapshot_def
      split: option.splits)

text \<open>The frames and the records last sent after a peek of the session itself.\<close>

lemma peek_same:
  assumes "sessions s sid = Some sess"
  shows "\<exists>U. U = (if subscriptions sess = [] then []
                   else collect_market_data_updates s (subscriptions sess)
                          (case session_last_versions s sid of None \<Rightarrow> [] | Some m \<Rightarrow> m)) \<and>
           frames_sent (handle_peek_message s sid) sid =
             frames_sent s sid @
             (if diff_instruments_of U (last_sent_structs s sid) = [] then []
              else [diff_snapshot_frame U (last_sent_structs s sid)]) \<and>
           last_sent_structs (handle_peek_message s sid) sid =
             fold (\<lambda>e m. AList.update (fst e) (snap_data (snd e)) m) U (last_sent_structs s sid)"
proof (cases "subscriptions sess = []")
  case True
  then show ?thesis
    using assms by (simp add: handle_peek_message_def diff_instruments_of_def)
next
  case False
  obtain U where U: "collect_market_data_updates s (subscriptions sess)
                          (case session_last_versions s sid of None \<Rightarrow> [] | Some m \<Rightarrow> m) = U"
    by simp
  obtain L where lc: "(case session_last_sent_structs s sid of None \<Rightarrow> [] | Some m \<Rightarrow> m) = L"
    by simp
  have L: "last_sent_structs s sid = L"
    using lc by (simp add: last_sent_structs_def)
  have hl: "(case session_last_sent_structs s sid of None \<Rightarrow> False | Some m \<Rightarrow> m \<noteq> []) \<longleftrightarrow> L \<noteq> []"
    using lc by (simp split: option.splits)
  have hp: "handle_peek_message s sid =
            (if U = [] then
               (if L \<noteq> []
                then s\<lparr> pending_peek_sessions := insert sid (pending_peek_sessions s) \<rparr>
                else s)
             else update_session_state
                    (if \<not> L \<noteq> [] then send_full_snapshot s sid U
                     else send_diff_snapshot s sid U L) sid U)"
    using assms False by (simp add: handle_peek_message_def Let_def U lc hl)
  have "frames_sent (handle_peek_message s sid) sid =
          frames_sent s sid @
          (if diff_instruments_of U L = [] then [] else [diff_snapshot_frame U L]) \<and>
        last_sent_structs (handle_peek_message s sid) sid =
          fold (\<lambda>e m. AList.update (fst e) (snap_data (snd e)) m) U L"
  proof (cases "U = []")
    case True
    then show ?thesis
      unfolding hp
      by (simp add: diff_instruments_of_def frames_sent_def last_sent_structs_def lc)
  next
    case Un: False
    show ?thesis
    proof (cases "L = []")
      case True
      then show ?thesis
        using assms Un unfolding hp
        by (simp add: update_session_state_last update_session_state_sel frames_sent_def
            send_full_snapshot_def send_message_sessions full_is_diff diff_instruments_Nil
            last_sent_send_message L)
    next
      case Ln: False
      then show ?thesis
        using assms Un unfolding hp
        by (simp add: update_session_state_last update_session_state_sel frames_sent_def
            send_diff_snapshot_def send_message_sessions last_sent_send_message L)
    qed
  qed
  then show ?thesis
    using False U L by simp
qed

section \<open>What a peek collects\<close>

lemma if_Some_chain:
  "(if A then None else if B then Some x else None) = Some e \<Longrightarrow> \<not> A \<and> e = x"
  by (simp split: if_splits)

lemma collect_one_facts:
  assumes "collect_one s lv i = Some e"
  shows "fst e = i"
    and "map_of (instrument_index_map s) i \<noteq> None"
    and "has_data (market_data_cache s ! nat (get_index s i))"
    and "snap_data (snd e) = data (market_data_cache s ! nat (get_index s i))"
    and "frame_key e = display_key s i"
proof -
  let ?entry = "market_data_cache s ! nat (get_index s i)"
  let ?v = "seqlock_read ?entry seqlock_init"
  have g: "get_index s i \<noteq> - 1"
    using assms unfolding collect_one_def Let_def by (cases "get_index s i = - 1") simp_all
  have h: "has_data ?entry"
    using assms g unfolding collect_one_def Let_def by (cases "has_data ?entry") simp_all
  have c: "(if seq_start ?v \<noteq> seq_end ?v \<or> seq_start ?v mod 2 \<noteq> 0 then None
            else if lv = [] \<or> map_of lv i = None \<or> seq_end ?v div 2 > the (map_of lv i)
              then Some (i,
                \<lparr> snap_data = data_snapshot ?v,
                  display_instrument =
                    (if get_index s i < int (length (display_instruments_cache s))
                     then Some (display_instruments_cache s ! nat (get_index s i)) else None),
                  version = seq_end ?v div 2, snap_has_data = True \<rparr>)
              else None) = Some e"
    using assms g h unfolding collect_one_def Let_def by simp
  note ce = if_Some_chain [OF c]
  have ev: "seq_start ?v mod 2 = 0"
    using ce by blast
  show "map_of (instrument_index_map s) i \<noteq> None"
    using g by (cases "map_of (instrument_index_map s) i") (simp_all add: get_index_def)
  show "has_data ?entry" by (rule h)
  have "sequence ?entry mod 2 = 0"
    using ev seqlock_read_seq_start [of ?entry seqlock_init] by simp
  note r = seqlock_read_even [OF this]
  have e: "e = (i,
      \<lparr> snap_data = data_snapshot ?v,
        display_instrument =
          (if get_index s i < int (length (display_instruments_cache s))
           then Some (display_instruments_cache s ! nat (get_index s i)) else None),
        version = seq_end ?v div 2, snap_has_data = True \<rparr>)"
    using ce by blast
  show "fst e = i" by (simp add: e)
  show "snap_data (snd e) = data ?entry"
    unfolding e r by simp
  show "frame_key e = display_key s i"
    unfolding e by (simp add: frame_key_def display_key_def Let_def)
qed

lemma map_filter_set:
  "set (List.map_filter f xs) = {y. \<exists>x \<in> set xs. f x = Some y}"
  by (induction xs) (auto simp: List.map_filter_simps split: option.splits)

lemma map_filter_distinct:
  assumes "\<And>x y. f x = Some y \<Longrightarrow> fst y = x"
  shows "distinct xs \<Longrightarrow> distinct (map fst (List.map_filter f xs))"
proof (induction xs)
  case Nil
  then show ?case by (simp add: List.map_filter_simps)
next
  case (Cons x xs)
  show ?case
  proof (cases "f x")
    case None
    then show ?thesis using Cons by (simp add: List.map_filter_simps)
  next
    case (Some y)
    have "fst y \<notin> fst ` set (List.map_filter f xs)"
    proof
      assume "fst y \<in> fst ` set (List.map_filter f xs)"
      then obtain z where z: "z \<in> set (List.map_filter f xs)" "fst z = fst y" by auto
      then obtain x' where "x' \<in> set xs" "f x' = Some z"
        by (auto simp: map_filter_set)
      then have "x' = x"
        using assms [of x' z] assms [OF Some] z(2) by simp
      then show False
        using \<open>x' \<in> set xs\<close> Cons.prems by simp
    qed
    then show ?thesis
      using Some Cons by (simp add: List.map_filter_simps)
  qed
qed

lemma collected_facts:
  assumes wf: "cache_wf s" and "e \<in> set (collect_market_data_updates s subs lv)"
  shows "fst e \<in> fst ` set (instrument_index_map s)"
    and "frame_key e = display_key s (fst e)"
    and "unassigned_fields_zero (snap_data (snd e))"
    and "snap_data (snd e) = data (market_data_cache s ! nat (get_index s (fst e)))"
proof -
  from assms(2) obtain i where c: "collect_one s lv i = Some e"
    by (auto simp: collect_market_data_updates_def map_filter_set)
  note f = collect_one_facts [OF c]
  from f(2) obtain ix where ix: "map_of (instrument_index_map s) i = Some ix"
    by auto
  then have mem: "(i, ix) \<in> set (instrument_index_map s)"
    by (rule map_of_SomeD)
  then show "fst e \<in> fst ` set (instrument_index_map s)"
    unfolding f(1) by force
  show "frame_key e = display_key s (fst e)"
    unfolding f(1) by (rule f(5))
  have gi: "get_index s i = ix"
    using ix by (simp add: get_index_def)
  have "0 \<le> ix \<and> ix < int (length (instrument_index_map s))"
    using wf mem unfolding cache_wf_def list_all_iff by auto
  then have "nat ix < length (market_data_cache s)"
    using wf unfolding cache_wf_def by linarith
  then have "market_data_cache s ! nat ix \<in> set (market_data_cache s)"
    by (rule nth_mem)
  then have "unassigned_fields_zero (data (market_data_cache s ! nat ix))"
    using wf f(3) unfolding cache_wf_def list_all_iff gi by auto
  then show "unassigned_fields_zero (snap_data (snd e))"
    using f(4) gi by simp
  show "snap_data (snd e) = data (market_data_cache s ! nat (get_index s (fst e)))"
    unfolding f(1) by (rule f(4))
qed

lemma collected_distinct:
  "distinct subs \<Longrightarrow> distinct (map fst (collect_market_data_updates s subs lv))"
  unfolding collect_market_data_updates_def
  by (rule map_filter_distinct) (rule collect_one_facts(1))

lemma display_key_cong:
  "instrument_index_map s' = instrument_index_map s \<Longrightarrow>
   display_instruments_cache s' = display_instruments_cache s \<Longrightarrow>
   display_key s' = display_key s"
  by (rule ext) (simp add: display_key_def get_index_def Let_def)

lemma cache_wf_cong:
  "instrument_index_map s' = instrument_index_map s \<Longrightarrow>
   market_data_cache s' = market_data_cache s \<Longrightarrow> cache_wf s' = cache_wf s"
  by (simp add: cache_wf_def)

lemma display_keys_inj:
  "display_keys_distinct s \<Longrightarrow> inj_on (display_key s) (fst ` set (instrument_index_map s))"
proof -
  assume "display_keys_distinct s"
  then have "distinct (map (display_key s) (map fst (instrument_index_map s)))"
    unfolding display_keys_distinct_def .
  then have "inj_on (display_key s) (set (map fst (instrument_index_map s)))"
    by (simp only: distinct_map)
  then show ?thesis by simp
qed

section \<open>A peek keeps the session and its client in step\<close>

lemma peek_synced:
  assumes sy: "session_synced s sid" and di: "display_keys_distinct s"
  shows "session_synced (handle_peek_message s x) sid"
proof -
  let ?s' = "handle_peek_message s x"
  let ?K = "display_key s" and ?D = "fst ` set (instrument_index_map s)"
  let ?V = "client_view (frames_sent s sid)" and ?L = "last_sent_structs s sid"
  from sy have wf: "cache_wf s"
    and subs: "case sessions s sid of None \<Rightarrow> True | Some sess \<Rightarrow> distinct (subscriptions sess)"
    and dl: "distinct (map fst ?L)" and ok: "view_ok ?K ?D ?V ?L"
    unfolding session_synced_view by simp_all
  have K': "display_key ?s' = ?K"
    by (rule display_key_cong) (simp_all add: peek_sel)
  have wf': "cache_wf ?s'"
    using wf cache_wf_cong [of ?s' s] by (simp add: peek_sel)
  have subs': "case sessions ?s' sid of None \<Rightarrow> True | Some sess \<Rightarrow> distinct (subscriptions sess)"
    using subs peek_subscriptions [of s x sid]
    by (cases "sessions ?s' sid"; cases "sessions s sid") auto
  have "distinct (map fst (last_sent_structs ?s' sid)) \<and>
        view_ok ?K ?D (client_view (frames_sent ?s' sid)) (last_sent_structs ?s' sid)"
  proof (cases "x = sid")
    case False
    then show ?thesis
      using dl ok peek_other [of x sid s] by simp
  next
    case True
    show ?thesis
    proof (cases "sessions s sid")
      case None
      then have "handle_peek_message s sid = s"
        by (simp add: handle_peek_message_def)
      then show ?thesis
        using dl ok True by simp
    next
      case (Some sess)
      from peek_same [OF Some] obtain U where
        U: "U = (if subscriptions sess = [] then []
                 else collect_market_data_updates s (subscriptions sess)
                        (case session_last_versions s sid of None \<Rightarrow> [] | Some m \<Rightarrow> m))"
        and fr: "frames_sent (handle_peek_message s sid) sid =
                   frames_sent s sid @
                   (if diff_instruments_of U ?L = [] then []
                    else [diff_snapshot_frame U ?L])"
        and ls: "last_sent_structs (handle_peek_message s sid) sid =
                   fold (\<lambda>e m. AList.update (fst e) (snap_data (snd e)) m) U ?L"
        by blast
      have du: "distinct (map fst U)"
        using subs Some unfolding U by (simp add: collected_distinct)
      have fu: "\<forall>e \<in> set U. fst e \<in> ?D \<and> frame_key e = ?K (fst e) \<and>
                  unassigned_fields_zero (snap_data (snd e))"
        unfolding U using collected_facts [OF wf] by (auto split: if_splits)
      have v: "client_view (frames_sent (handle_peek_message s sid) sid) =
               foldl read_quote ?V (map (diff_quote_of ?L) (diff_instruments_of U ?L))"
        unfolding fr
        by (simp add: client_view_snoc diff_snapshot_frame_def read_frame_rtn)
      have "view_ok ?K ?D
              (foldl read_quote ?V (map (diff_quote_of ?L) (diff_instruments_of U ?L)))
              (fold (\<lambda>e m. AList.update (fst e) (snap_data (snd e)) m) U ?L)"
        by (rule peek_fold [OF display_keys_inj [OF di] du fu ok]) simp
      then show ?thesis
        unfolding True v ls using dl by (simp add: fold_update_distinct)
    qed
  qed
  then show ?thesis
    unfolding session_synced_view K' using wf' subs' by (simp add: peek_sel)
qed

section \<open>What a tick changes\<close>

lemma update_fresh:
  "map_of al k = None \<Longrightarrow> AList.update k v al = al @ [(k, v)]"
  by (induction al) (auto split: if_splits)

lemma cache_market_data_shape:
  "\<exists>m' dc' c' p'.
     cache_market_data s i d disp =
       s\<lparr> instrument_index_map := m', display_instruments_cache := dc',
          market_data_cache := c', posted := p' \<rparr> \<and>
     (m' = instrument_index_map s \<and> dc' = display_instruments_cache s \<or>
      (\<exists>x. map_of (instrument_index_map s) i = None \<and>
           length (instrument_index_map s) < length (market_data_cache s) \<and>
           m' = instrument_index_map s @ [(i, int (length (instrument_index_map s)))] \<and>
           dc' = (display_instruments_cache s)[length (instrument_index_map s) := x])) \<and>
     length c' = length (market_data_cache s) \<and>
     (\<forall>e \<in> set c'. e \<in> set (market_data_cache s) \<or> has_data e \<and> data e = d)"
proof (cases "map_of (instrument_index_map s) i")
  case (Some ix)
  then have g: "get_or_create_index s i disp = (ix, s)"
    by (simp add: get_or_create_index_def)
  show ?thesis
  proof (cases "ix < 0")
    case True
    then have "cache_market_data s i d disp =
        s\<lparr> instrument_index_map := instrument_index_map s,
           display_instruments_cache := display_instruments_cache s,
           market_data_cache := market_data_cache s, posted := posted s \<rparr>"
      using g by (simp add: cache_market_data_def)
    then show ?thesis by blast
  next
    case False
    let ?c = "(market_data_cache s)
        [nat ix := \<lparr> sequence = sequence (market_data_cache s ! nat ix) + 2, data = d,
              has_data = True \<rparr>]"
    have "cache_market_data s i d disp =
        s\<lparr> instrument_index_map := instrument_index_map s,
           display_instruments_cache := display_instruments_cache s,
           market_data_cache := ?c, posted := posted s @ [i] \<rparr>"
      using g False by (simp add: cache_market_data_def Let_def entry_written)
    moreover have "length ?c = length (market_data_cache s)" by simp
    moreover have "\<forall>e \<in> set ?c. e \<in> set (market_data_cache s) \<or> has_data e \<and> data e = d"
    proof
      fix e assume "e \<in> set ?c"
      then have "e \<in> insert (\<lparr> sequence = sequence (market_data_cache s ! nat ix) + 2, data = d,
              has_data = True \<rparr>) (set (market_data_cache s))"
        using set_update_subset_insert by fast
      then show "e \<in> set (market_data_cache s) \<or> has_data e \<and> data e = d"
        by auto
    qed
    ultimately show ?thesis by blast
  qed
next
  case None
  let ?n = "length (instrument_index_map s)"
  show ?thesis
  proof (cases "int ?n \<ge> int (length (market_data_cache s))")
    case True
    then have "get_or_create_index s i disp = (- 1, s)"
      using None by (simp add: get_or_create_index_def)
    then have "cache_market_data s i d disp =
        s\<lparr> instrument_index_map := instrument_index_map s,
           display_instruments_cache := display_instruments_cache s,
           market_data_cache := market_data_cache s, posted := posted s \<rparr>"
      by (simp add: cache_market_data_def)
    then show ?thesis by blast
  next
    case False
    let ?x = "if disp \<noteq> [] then disp
              else (case noheadtohead_instruments_map s i of Some d \<Rightarrow> d | None \<Rightarrow> i)"
    let ?m = "instrument_index_map s @ [(i, int ?n)]"
    let ?dc = "(display_instruments_cache s)[?n := ?x]"
    let ?c = "(market_data_cache s)
        [?n := \<lparr> sequence = sequence (market_data_cache s ! ?n) + 2, data = d,
              has_data = True \<rparr>]"
    have g: "get_or_create_index s i disp =
        (int ?n, s\<lparr> instrument_index_map := ?m, display_instruments_cache := ?dc \<rparr>)"
      using None False by (simp add: get_or_create_index_def Let_def update_fresh)
    have "cache_market_data s i d disp =
        s\<lparr> instrument_index_map := ?m, display_instruments_cache := ?dc,
           market_data_cache := ?c, posted := posted s @ [i] \<rparr>"
      unfolding cache_market_data_def g by (simp add: Let_def entry_written)
    moreover have "length ?c = length (market_data_cache s)" by simp
    moreover have "\<forall>e \<in> set ?c. e \<in> set (market_data_cache s) \<or> has_data e \<and> data e = d"
    proof
      fix e assume "e \<in> set ?c"
      then have "e \<in> insert (\<lparr> sequence = sequence (market_data_cache s ! ?n) + 2, data = d,
              has_data = True \<rparr>) (set (market_data_cache s))"
        using set_update_subset_insert by fast
      then show "e \<in> set (market_data_cache s) \<or> has_data e \<and> data e = d"
        by auto
    qed
    moreover have "?n < length (market_data_cache s)" using False by simp
    ultimately show ?thesis using None by blast
  qed
qed

lemma tick_shape:
  "\<exists>m' dc' c' p'.
     server_step s (TickReceived t cur_time) =
       s\<lparr> instrument_index_map := m', display_instruments_cache := dc',
          market_data_cache := c', posted := p' \<rparr> \<and>
     (m' = instrument_index_map s \<and> dc' = display_instruments_cache s \<or>
      (\<exists>x i. map_of (instrument_index_map s) i = None \<and>
           length (instrument_index_map s) < length (market_data_cache s) \<and>
           m' = instrument_index_map s @ [(i, int (length (instrument_index_map s)))] \<and>
           dc' = (display_instruments_cache s)[length (instrument_index_map s) := x])) \<and>
     length c' = length (market_data_cache s) \<and>
     (\<forall>e \<in> set c'. e \<in> set (market_data_cache s) \<or>
        has_data e \<and> unassigned_fields_zero (data e))"
proof -
  obtain disp where
    "server_step s (TickReceived t cur_time) =
     cache_market_data s (InstrumentID t) (build_market_data_struct (Some t) disp cur_time) disp"
    by (simp add: OnRtnDepthMarketData_def Let_def)
  note st = this
  let ?d = "build_market_data_struct (Some t) disp cur_time"
  from cache_market_data_shape [of s "InstrumentID t" ?d disp]
  obtain m' dc' c' p' where
    eq: "cache_market_data s (InstrumentID t) ?d disp =
       s\<lparr> instrument_index_map := m', display_instruments_cache := dc',
          market_data_cache := c', posted := p' \<rparr>"
    and sh: "m' = instrument_index_map s \<and> dc' = display_instruments_cache s \<or>
      (\<exists>x. map_of (instrument_index_map s) (InstrumentID t) = None \<and>
           length (instrument_index_map s) < length (market_data_cache s) \<and>
           m' = instrument_index_map s @
             [(InstrumentID t, int (length (instrument_index_map s)))] \<and>
           dc' = (display_instruments_cache s)[length (instrument_index_map s) := x])"
    and len: "length c' = length (market_data_cache s)"
    and ent: "\<forall>e \<in> set c'. e \<in> set (market_data_cache s) \<or> has_data e \<and> data e = ?d"
    by blast
  have sh': "m' = instrument_index_map s \<and> dc' = display_instruments_cache s \<or>
      (\<exists>x i. map_of (instrument_index_map s) i = None \<and>
           length (instrument_index_map s) < length (market_data_cache s) \<and>
           m' = instrument_index_map s @ [(i, int (length (instrument_index_map s)))] \<and>
           dc' = (display_instruments_cache s)[length (instrument_index_map s) := x])"
    using sh by blast
  have ent': "\<forall>e \<in> set c'. e \<in> set (market_data_cache s) \<or>
        has_data e \<and> unassigned_fields_zero (data e)"
    using ent build_unassigned_fields_zero [of "Some t" disp cur_time] by auto
  show ?thesis
    unfolding st eq using sh' len ent' by blast
qed

lemma display_key_old:
  assumes wf: "cache_wf s" and j: "j \<in> fst ` set (instrument_index_map s)"
    and n: "map_of (instrument_index_map s) i = None"
  shows "display_key
           (s\<lparr> instrument_index_map :=
                 instrument_index_map s @ [(i, int (length (instrument_index_map s)))],
               display_instruments_cache :=
                 (display_instruments_cache s)[length (instrument_index_map s) := x],
               market_data_cache := c', posted := p' \<rparr>) j = display_key s j"
proof -
  from j obtain ix where ix: "map_of (instrument_index_map s) j = Some ix"
    by (metis map_of_eq_None_iff not_Some_eq)
  then have "(j, ix) \<in> set (instrument_index_map s)"
    by (rule map_of_SomeD)
  then have b: "0 \<le> ix" "ix < int (length (instrument_index_map s))"
    using wf unfolding cache_wf_def list_all_iff by auto
  then have ne: "nat ix \<noteq> length (instrument_index_map s)" by linarith
  show ?thesis
    using ix ne by (simp add: display_key_def get_index_def Let_def)
qed

section \<open>A tick keeps the session and its client in step\<close>

lemma view_ok_mono:
  assumes "view_ok K D V L" and "D \<subseteq> D'" and "\<forall>i \<in> D. K' i = K i"
  shows "view_ok K' D' V L"
  unfolding view_ok_def
proof (rule conjI; intro allI impI ballI)
  fix i r assume "map_of L i = Some r"
  then have "i \<in> D \<and> unassigned_fields_zero r \<and> map_of V (K i) = Some r"
    using assms(1) unfolding view_ok_def by blast
  then show "i \<in> D' \<and> unassigned_fields_zero r \<and> map_of V (K' i) = Some r"
    using assms(2,3) by auto
next
  fix k assume "k \<in> fst ` set V"
  then obtain i r where "map_of L i = Some r" "k = K i"
    using assms(1) unfolding view_ok_def by blast
  moreover from this have "i \<in> D"
    using assms(1) unfolding view_ok_def by blast
  ultimately show "\<exists>i r. map_of L i = Some r \<and> k = K' i"
    using assms(3) by auto
qed

lemma tick_wf:
  assumes wf: "cache_wf s"
  shows "cache_wf (server_step s (TickReceived t cur_time))"
proof -
  let ?s' = "server_step s (TickReceived t cur_time)"
  from tick_shape [of s t cur_time] obtain m' dc' c' p' where
    eq: "?s' = s\<lparr> instrument_index_map := m', display_instruments_cache := dc',
                   market_data_cache := c', posted := p' \<rparr>"
    and sh: "m' = instrument_index_map s \<and> dc' = display_instruments_cache s \<or>
      (\<exists>x i. map_of (instrument_index_map s) i = None \<and>
           length (instrument_index_map s) < length (market_data_cache s) \<and>
           m' = instrument_index_map s @ [(i, int (length (instrument_index_map s)))] \<and>
           dc' = (display_instruments_cache s)[length (instrument_index_map s) := x])"
    and len: "length c' = length (market_data_cache s)"
    and ent: "\<forall>e \<in> set c'. e \<in> set (market_data_cache s) \<or>
        has_data e \<and> unassigned_fields_zero (data e)"
    by blast
  have im: "instrument_index_map ?s' = m'" and ca: "market_data_cache ?s' = c'"
    unfolding eq by simp_all
  have c3: "list_all (\<lambda>e. \<not> has_data e \<or> unassigned_fields_zero (data e)) c'"
    using ent wf unfolding cache_wf_def list_all_iff by blast
  show ?thesis
    using sh
  proof
    assume "m' = instrument_index_map s \<and> dc' = display_instruments_cache s"
    then show ?thesis
      using wf c3 len unfolding cache_wf_def im ca by simp
  next
    assume "\<exists>x i. map_of (instrument_index_map s) i = None \<and>
           length (instrument_index_map s) < length (market_data_cache s) \<and>
           m' = instrument_index_map s @ [(i, int (length (instrument_index_map s)))] \<and>
           dc' = (display_instruments_cache s)[length (instrument_index_map s) := x]"
    then obtain x i where n: "map_of (instrument_index_map s) i = None"
      and m: "m' = instrument_index_map s @ [(i, int (length (instrument_index_map s)))]"
      and lt: "length (instrument_index_map s) < length (market_data_cache s)"
      and dc: "dc' = (display_instruments_cache s)[length (instrument_index_map s) := x]"
      by blast
    have "list_all (\<lambda>kv. 0 \<le> snd kv \<and> snd kv < int (length m')) m'"
      using wf unfolding cache_wf_def m list_all_iff by auto
    moreover have "length m' \<le> length c'"
      using lt len unfolding m by simp
    ultimately show ?thesis
      using c3 unfolding cache_wf_def im ca by simp
  qed
qed

lemma tick_synced:
  assumes sy: "session_synced s sid"
  shows "session_synced (server_step s (TickReceived t cur_time)) sid"
proof -
  let ?s' = "server_step s (TickReceived t cur_time)"
  from sy have wf: "cache_wf s"
    and subs: "case sessions s sid of None \<Rightarrow> True | Some sess \<Rightarrow> distinct (subscriptions sess)"
    and dl: "distinct (map fst (last_sent_structs s sid))"
    and ok: "view_ok (display_key s) (fst ` set (instrument_index_map s))
               (client_view (frames_sent s sid)) (last_sent_structs s sid)"
    unfolding session_synced_view by simp_all
  from tick_shape [of s t cur_time] obtain m' dc' c' p' where
    eq: "?s' = s\<lparr> instrument_index_map := m', display_instruments_cache := dc',
                   market_data_cache := c', posted := p' \<rparr>"
    and sh: "m' = instrument_index_map s \<and> dc' = display_instruments_cache s \<or>
      (\<exists>x i. map_of (instrument_index_map s) i = None \<and>
           length (instrument_index_map s) < length (market_data_cache s) \<and>
           m' = instrument_index_map s @ [(i, int (length (instrument_index_map s)))] \<and>
           dc' = (display_instruments_cache s)[length (instrument_index_map s) := x])"
    and len: "length c' = length (market_data_cache s)"
    and ent: "\<forall>e \<in> set c'. e \<in> set (market_data_cache s) \<or>
        has_data e \<and> unassigned_fields_zero (data e)"
    by blast
  have fr: "frames_sent ?s' sid = frames_sent s sid"
    unfolding eq by (simp add: frames_sent_def)
  have ls: "last_sent_structs ?s' sid = last_sent_structs s sid"
    unfolding eq by (simp add: last_sent_structs_def)
  have se: "sessions ?s' = sessions s"
    unfolding eq by simp
  have im: "instrument_index_map ?s' = m'"
    unfolding eq by simp
  have wf': "cache_wf ?s'"
    by (rule tick_wf [OF wf])
  have sub: "fst ` set (instrument_index_map s) \<subseteq> fst ` set (instrument_index_map ?s')"
    using sh unfolding im by auto
  have K: "\<forall>j \<in> fst ` set (instrument_index_map s). display_key ?s' j = display_key s j"
    using sh
  proof
    assume "m' = instrument_index_map s \<and> dc' = display_instruments_cache s"
    then have "display_key ?s' = display_key s"
      unfolding eq by (intro display_key_cong) simp_all
    then show ?thesis by simp
  next
    assume "\<exists>x i. map_of (instrument_index_map s) i = None \<and>
           length (instrument_index_map s) < length (market_data_cache s) \<and>
           m' = instrument_index_map s @ [(i, int (length (instrument_index_map s)))] \<and>
           dc' = (display_instruments_cache s)[length (instrument_index_map s) := x]"
    then obtain x i where n: "map_of (instrument_index_map s) i = None"
      and m: "m' = instrument_index_map s @ [(i, int (length (instrument_index_map s)))]"
      and dc: "dc' = (display_instruments_cache s)[length (instrument_index_map s) := x]"
      by blast
    show ?thesis
      unfolding eq m dc using display_key_old [OF wf _ n] by blast
  qed
  have "view_ok (display_key ?s') (fst ` set (instrument_index_map ?s'))
          (client_view (frames_sent s sid)) (last_sent_structs s sid)"
    by (rule view_ok_mono [OF ok sub K])
  then show ?thesis
    unfolding session_synced_view fr ls se using wf' subs dl by simp
qed

section \<open>Different display names after a run were different before\<close>

lemma tick_keys_distinct:
  assumes wf: "cache_wf s"
    and di: "display_keys_distinct (server_step s (TickReceived t cur_time))"
  shows "display_keys_distinct s"
proof -
  let ?s' = "server_step s (TickReceived t cur_time)"
  from tick_shape [of s t cur_time] obtain m' dc' c' p' where
    eq: "?s' = s\<lparr> instrument_index_map := m', display_instruments_cache := dc',
                   market_data_cache := c', posted := p' \<rparr>"
    and sh: "m' = instrument_index_map s \<and> dc' = display_instruments_cache s \<or>
      (\<exists>x i. map_of (instrument_index_map s) i = None \<and>
           length (instrument_index_map s) < length (market_data_cache s) \<and>
           m' = instrument_index_map s @ [(i, int (length (instrument_index_map s)))] \<and>
           dc' = (display_instruments_cache s)[length (instrument_index_map s) := x])"
    by blast
  from sh show ?thesis
  proof
    assume a: "m' = instrument_index_map s \<and> dc' = display_instruments_cache s"
    then have "display_key ?s' = display_key s"
      unfolding eq by (intro display_key_cong) simp_all
    then show ?thesis
      using di a unfolding display_keys_distinct_def eq by simp
  next
    assume "\<exists>x i. map_of (instrument_index_map s) i = None \<and>
           length (instrument_index_map s) < length (market_data_cache s) \<and>
           m' = instrument_index_map s @ [(i, int (length (instrument_index_map s)))] \<and>
           dc' = (display_instruments_cache s)[length (instrument_index_map s) := x]"
    then obtain x i where n: "map_of (instrument_index_map s) i = None"
      and m: "m' = instrument_index_map s @ [(i, int (length (instrument_index_map s)))]"
      and dc: "dc' = (display_instruments_cache s)[length (instrument_index_map s) := x]"
      by blast
    have "distinct (map (display_key ?s') (map fst (instrument_index_map s)))"
      using di unfolding display_keys_distinct_def eq m by simp
    moreover have "map (display_key ?s') (map fst (instrument_index_map s)) =
                   map (display_key s) (map fst (instrument_index_map s))"
      unfolding eq m dc
      by (rule map_cong [OF refl]) (use display_key_old [OF wf _ n] in auto)
    ultimately show ?thesis
      unfolding display_keys_distinct_def by (simp only:)
  qed
qed

lemma peek_keys_distinct:
  "display_keys_distinct (handle_peek_message s x) = display_keys_distinct s"
  unfolding display_keys_distinct_def
  using display_key_cong [of "handle_peek_message s x" s]
  by (simp add: peek_sel)

lemma step_wf:
  "cache_wf s \<Longrightarrow> cache_wf (server_step s e)"
proof (cases e)
  case (TickReceived t cur_time)
  assume "cache_wf s"
  then show ?thesis
    unfolding TickReceived by (rule tick_wf)
next
  case (PeekMessage x)
  assume "cache_wf s"
  then show ?thesis
    unfolding PeekMessage using cache_wf_cong [of "handle_peek_message s x" s]
    by (simp add: peek_sel)
qed

lemma run_snoc:
  "server_run s (es @ [e]) = server_step (server_run s es) e"
  by (simp add: server_run_def)

lemma run_wf:
  "cache_wf s \<Longrightarrow> cache_wf (server_run s es)"
proof (induction es rule: rev_induct)
  case Nil
  then show ?case by (simp add: server_run_def)
next
  case (snoc e es)
  then show ?case
    unfolding run_snoc by (simp add: step_wf)
qed

lemma step_keys_distinct:
  assumes "cache_wf s" and "display_keys_distinct (server_step s e)"
  shows "display_keys_distinct s"
proof (cases e)
  case (TickReceived t cur_time)
  then show ?thesis
    using assms tick_keys_distinct [of s t cur_time] by simp
next
  case (PeekMessage x)
  then show ?thesis
    using assms(2) by (simp add: peek_keys_distinct)
qed

lemma step_synced:
  assumes "session_synced s sid" and "display_keys_distinct s"
  shows "session_synced (server_step s e) sid"
proof (cases e)
  case (TickReceived t cur_time)
  then show ?thesis
    using tick_synced [OF assms(1), of t cur_time] by simp
next
  case (PeekMessage x)
  then show ?thesis
    using peek_synced [OF assms, of x] by simp
qed

lemma run_synced:
  assumes "session_synced s sid"
  shows "display_keys_distinct (server_run s es) \<Longrightarrow> session_synced (server_run s es) sid"
proof (induction es rule: rev_induct)
  case Nil
  then show ?case
    using assms by (simp add: server_run_def)
next
  case (snoc e es)
  have wf: "cache_wf (server_run s es)"
    using assms by (intro run_wf) (simp add: session_synced_def)
  have di: "display_keys_distinct (server_run s es)"
    using step_keys_distinct [OF wf] snoc.prems unfolding run_snoc by blast
  show ?case
    unfolding run_snoc by (rule step_synced [OF snoc.IH [OF di] di])
qed

section \<open>What a peek delivers\<close>

lemma peek_delivers:
  assumes sy: "session_synced s sid" and di: "display_keys_distinct s"
    and se: "sessions s sid = Some sess" and i: "i \<in> set (subscriptions sess)"
    and co: "collect_one s (case session_last_versions s sid of None \<Rightarrow> [] | Some m \<Rightarrow> m) i
               \<noteq> None"
  shows "map_of (client_view (frames_sent (handle_peek_message s sid) sid)) (display_key s i) =
         Some (data (market_data_cache s ! nat (get_index s i)))"
proof -
  let ?s' = "handle_peek_message s sid"
  let ?lv = "case session_last_versions s sid of None \<Rightarrow> [] | Some m \<Rightarrow> m"
  from co obtain e where e: "collect_one s ?lv i = Some e" by blast
  note f = collect_one_facts [OF e]
  from peek_same [OF se] obtain U where
    U: "U = (if subscriptions sess = [] then []
             else collect_market_data_updates s (subscriptions sess) ?lv)"
    and ls: "last_sent_structs ?s' sid =
               fold (\<lambda>e m. AList.update (fst e) (snap_data (snd e)) m) U
                 (last_sent_structs s sid)"
    by blast
  have ne: "subscriptions sess \<noteq> []" using i by auto
  have mem: "e \<in> set U"
    unfolding U using ne i e by (auto simp: collect_market_data_updates_def map_filter_set)
  have du: "distinct (map fst U)"
    using sy se ne unfolding U session_synced_def by (simp add: collected_distinct)
  have "map_of (last_sent_structs ?s' sid) (fst e) = Some (snap_data (snd e))"
    unfolding ls by (rule fold_update_lookup [OF du mem])
  then have l: "map_of (last_sent_structs ?s' sid) i =
                Some (data (market_data_cache s ! nat (get_index s i)))"
    using f(1) f(4) by simp
  have K': "display_key ?s' = display_key s"
    by (rule display_key_cong) (simp_all add: peek_sel)
  have "view_ok (display_key ?s') (fst ` set (instrument_index_map ?s'))
          (client_view (frames_sent ?s' sid)) (last_sent_structs ?s' sid)"
    using peek_synced [OF sy di, of sid] unfolding session_synced_view by simp
  then show ?thesis
    using l unfolding view_ok_def K' by blast
qed

section \<open>The scenario as a run\<close>

lemma scenario_start_synced:
  "session_synced (scenario_start n) ''s1''"
  by (simp add: session_synced_def cache_wf_def scenario_start_def MarketDataServer_new_def
      last_sent_structs_def frames_sent_def client_view_def empty_entry_def list_all_iff)

lemma scenario_run:
  assumes "0 < n"
  shows "server_run (scenario_start n)
           [TickReceived tick_S1 t1, PeekMessage ''s1'', TickReceived tick_S2 t2,
            PeekMessage ''s1''] =
         handle_peek_message (state_C n t1 t2) ''s1''"
  using assms by (simp add: server_run_def step_A step_B step_C)

lemma state_B_synced:
  assumes "0 < n"
  shows "session_synced (state_B n t1) ''s1''"
proof -
  have r: "server_run (scenario_start n) [TickReceived tick_S1 t1, PeekMessage ''s1''] =
           state_B n t1"
    using assms by (simp add: server_run_def step_A step_B)
  have d: "display_keys_distinct (state_B n t1)"
    by (simp add: display_keys_distinct_def state_B_def state_A_def)
  show ?thesis
    using run_synced [OF scenario_start_synced,
        of n "[TickReceived tick_S1 t1, PeekMessage ''s1'']"] d
    unfolding r by blast
qed

lemma state_C_sel:
  "instrument_index_map (state_C n t1 t2) = [(''rb2501'', 0)]"
  "sessions (state_C n t1 t2) ''s1'' =
     Some \<lparr> subscriptions = [''rb2501''],
            sent_messages = [full_snapshot_frame [(''rb2501'', snap_S1 t1)]] \<rparr>"
  "session_last_versions (state_C n t1 t2) ''s1'' = Some [(''rb2501'', 1)]"
  by (simp_all add: state_C_def state_B_def state_A_def)

lemma state_C_slot:
  "0 < n \<Longrightarrow> market_data_cache (state_C n t1 t2) ! 0 =
     \<lparr> sequence = 4, data = quote_S2 t2, has_data = True \<rparr>"
  by (simp add: state_C_def)

lemma state_C_key:
  "0 < n \<Longrightarrow> display_key (state_C n t1 t2) ''rb2501'' = ''SHFE.rb2501''"
  by (simp add: display_key_def get_index_def state_C_def state_B_def state_A_def Let_def)

lemma state_C_collect:
  "0 < n \<Longrightarrow> collect_one (state_C n t1 t2) [(''rb2501'', 1)] ''rb2501'' \<noteq> None"
  by (simp add: collect_one_def get_index_def state_C_sel state_C_slot seqlock_read_even Let_def
      del: seqlock_read.simps)

lemma new_session_synced:
  assumes "cache_wf s" and "sessions s sid = Some sess" and "distinct (subscriptions sess)"
    and "sent_messages sess = []" and "last_sent_structs s sid = []"
  shows "session_synced s sid"
  using assms by (simp add: session_synced_def frames_sent_def client_view_def)

lemma scenario_start_wf: "cache_wf (scenario_start n)"
  by (simp add: cache_wf_def scenario_start_def MarketDataServer_new_def empty_entry_def
      list_all_iff)

section \<open>The diff as a patch\<close>

text \<open>
  Claim C1, as the code has it. The members written by \<open>compute_struct_diff\<close> for
  \<open>old_data\<close> and \<open>new_data\<close>, applied to \<open>old_data\<close>, give \<open>new_data\<close> in every field
  but \<open>average\<close>, which no frame carries and which stays as it was; so they give
  \<open>new_data\<close> itself when the two records have the same \<open>average\<close>, and every record
  from \<open>build_market_data_struct\<close> has \<open>average\<close> and the levels 6..10 at zero. A
  session to which nothing has been sent is in step with its client. For a session
  in step with its client and any run of ticks (\<open>OnRtnDepthMarketData\<close>) and peeks
  (\<open>handle_peek_message\<close>, with \<open>send_full_snapshot\<close>, \<open>send_diff_snapshot\<close> and
  \<open>update_session_state\<close>) after which the instruments with a slot have pairwise
  different display keys, the session is in step with its client after the run: the
  frames sent to it, read in order, hold under the key of each instrument the record
  last sent for it, and nothing else. And a peek of such a session delivers, for each
  subscribed instrument that it collects, the record in the instrument's cache slot.
\<close>

theorem diff_patch_round_trip:
  "apply_patch (json_members (compute_struct_diff old_data new_data)) old_data =
     new_data\<lparr> average := average old_data \<rparr> \<and>
   (average old_data = average new_data \<longrightarrow>
      apply_patch (json_members (compute_struct_diff old_data new_data)) old_data = new_data) \<and>
   unassigned_fields_zero (build_market_data_struct tick display cur_time) \<and>
   (cache_wf s \<and> sessions s session_id = Some sess \<and> distinct (subscriptions sess) \<and>
    sent_messages sess = [] \<and> last_sent_structs s session_id = [] \<longrightarrow>
      session_synced s session_id) \<and>
   (session_synced s session_id \<and> display_keys_distinct (server_run s events) \<longrightarrow>
      session_synced (server_run s events) session_id) \<and>
   (session_synced s session_id \<and> display_keys_distinct s \<and>
    sessions s session_id = Some sess \<and> instrument \<in> set (subscriptions sess) \<and>
    collect_one s (case session_last_versions s session_id of None \<Rightarrow> [] | Some m \<Rightarrow> m)
      instrument \<noteq> None \<longrightarrow>
      map_of (client_view (frames_sent (handle_peek_message s session_id) session_id))
        (display_key s instrument) =
      Some (data (market_data_cache s ! nat (get_index s instrument))))"
proof -
  have a: "apply_patch (json_members (compute_struct_diff old_data new_data)) old_data =
           new_data\<lparr> average := average old_data \<rparr>"
    by (simp add: compute_struct_diff_def json_members_def patch_diff_members)
  have b: "average old_data = average new_data \<longrightarrow>
      apply_patch (json_members (compute_struct_diff old_data new_data)) old_data = new_data"
    unfolding a by simp
  note c = build_unassigned_fields_zero [of tick display cur_time]
  have n: "cache_wf s \<and> sessions s session_id = Some sess \<and> distinct (subscriptions sess) \<and>
    sent_messages sess = [] \<and> last_sent_structs s session_id = [] \<longrightarrow>
      session_synced s session_id"
    using new_session_synced [of s session_id sess] by blast
  have d: "session_synced s session_id \<and> display_keys_distinct (server_run s events) \<longrightarrow>
      session_synced (server_run s events) session_id"
    using run_synced [of s session_id events] by blast
  have e: "session_synced s session_id \<and> display_keys_distinct s \<and>
    sessions s session_id = Some sess \<and> instrument \<in> set (subscriptions sess) \<and>
    collect_one s (case session_last_versions s session_id of None \<Rightarrow> [] | Some m \<Rightarrow> m)
      instrument \<noteq> None \<longrightarrow>
      map_of (client_view (frames_sent (handle_peek_message s session_id) session_id))
        (display_key s instrument) =
      Some (data (market_data_cache s ! nat (get_index s instrument)))"
    using peek_delivers [of s session_id sess instrument] by blast
  from a b c n d e show ?thesis by blast
qed

theorem diff_patch_round_trip_witness:
  "average (quote_S1 1) = average (quote_S2 2) \<and>
   apply_patch (json_members (compute_struct_diff (quote_S1 1) (quote_S2 2))) (quote_S1 1) =
     quote_S2 2 \<and>
   cache_wf (scenario_start 1) \<and>
   sessions (scenario_start 1) ''s1'' =
     Some \<lparr> subscriptions = [''rb2501''], sent_messages = [] \<rparr> \<and>
   last_sent_structs (scenario_start 1) ''s1'' = [] \<and>
   session_synced (scenario_start 1) ''s1'' \<and>
   display_keys_distinct
     (server_run (scenario_start 1)
        [TickReceived tick_S1 1, PeekMessage ''s1'', TickReceived tick_S2 2,
         PeekMessage ''s1'']) \<and>
   session_synced
     (server_run (scenario_start 1)
        [TickReceived tick_S1 1, PeekMessage ''s1'', TickReceived tick_S2 2,
         PeekMessage ''s1'']) ''s1'' \<and>
   session_synced (state_C 1 1 2) ''s1'' \<and> display_keys_distinct (state_C 1 1 2) \<and>
   sessions (state_C 1 1 2) ''s1'' =
     Some \<lparr> subscriptions = [''rb2501''],
            sent_messages = [full_snapshot_frame [(''rb2501'', snap_S1 1)]] \<rparr> \<and>
   collect_one (state_C 1 1 2) [(''rb2501'', 1)] ''rb2501'' \<noteq> None \<and>
   map_of (client_view (frames_sent (handle_peek_message (state_C 1 1 2) ''s1'') ''s1''))
     ''SHFE.rb2501'' = Some (quote_S2 2)"
proof -
  let ?es = "[TickReceived tick_S1 1, PeekMessage ''s1'', TickReceived tick_S2 2,
              PeekMessage ''s1'']"
  let ?fresh = "\<lparr> subscriptions = [''rb2501''], sent_messages = [] \<rparr>"
  let ?sess = "\<lparr> subscriptions = [''rb2501''],
                 sent_messages = [full_snapshot_frame [(''rb2501'', snap_S1 1)]] \<rparr>"
  note t = diff_patch_round_trip [where old_data = "quote_S1 1" and new_data = "quote_S2 2"
      and tick = None and display = "[]" and cur_time = 0 and s = "scenario_start 1"
      and session_id = "''s1''" and events = ?es and sess = ?fresh
      and instrument = "''rb2501''"]
  note u = diff_patch_round_trip [where old_data = "quote_S1 1" and new_data = "quote_S2 2"
      and tick = None and display = "[]" and cur_time = 0 and s = "state_C 1 1 2"
      and session_id = "''s1''" and events = "[]" and sess = ?sess
      and instrument = "''rb2501''"]
  have h1: "average (quote_S1 1) = average (quote_S2 2)"
    by (simp add: quote_S1_def quote_S2_def)
  have n1: "cache_wf (scenario_start 1)"
    by (rule scenario_start_wf)
  have n2: "sessions (scenario_start 1) ''s1'' = Some ?fresh"
    by (simp add: scenario_start_def)
  have n3: "last_sent_structs (scenario_start 1) ''s1'' = []"
    by (simp add: last_sent_structs_def scenario_start_def MarketDataServer_new_def)
  have n4: "distinct (subscriptions ?fresh) \<and> sent_messages ?fresh = []"
    by simp
  have h2: "session_synced (scenario_start 1) ''s1''"
    using t n1 n2 n3 n4 by blast
  have h3: "display_keys_distinct (server_run (scenario_start 1) ?es)"
    by (simp add: scenario_run display_keys_distinct_def peek_sel state_C_sel)
  have h4: "session_synced (state_C 1 1 2) ''s1''"
    using tick_synced [OF state_B_synced [of 1 1], of tick_S2 2] by (simp add: step_C)
  have h5: "display_keys_distinct (state_C 1 1 2)"
    by (simp add: display_keys_distinct_def state_C_sel)
  have h6: "sessions (state_C 1 1 2) ''s1'' = Some ?sess"
    by (simp add: state_C_sel)
  have h7: "collect_one (state_C 1 1 2) [(''rb2501'', 1)] ''rb2501'' \<noteq> None"
    by (simp add: state_C_collect)
  have k: "display_key (state_C 1 1 2) ''rb2501'' = ''SHFE.rb2501''"
    by (simp add: state_C_key)
  have g: "get_index (state_C 1 1 2) ''rb2501'' = 0"
    by (simp add: get_index_def state_C_sel)
  have r1: "apply_patch (json_members (compute_struct_diff (quote_S1 1) (quote_S2 2)))
              (quote_S1 1) = quote_S2 2"
    using t h1 by blast
  have r2: "session_synced (server_run (scenario_start 1) ?es) ''s1''"
    using t h2 h3 by blast
  have "map_of (client_view (frames_sent (handle_peek_message (state_C 1 1 2) ''s1'') ''s1''))
          (display_key (state_C 1 1 2) ''rb2501'') =
        Some (data (market_data_cache (state_C 1 1 2) ! nat (get_index (state_C 1 1 2) ''rb2501'')))"
    using u h4 h5 h6 h7 by (simp add: state_C_sel)
  then have r3: "map_of (client_view (frames_sent (handle_peek_message (state_C 1 1 2) ''s1'') ''s1''))
          ''SHFE.rb2501'' = Some (quote_S2 2)"
    unfolding k g by (simp add: state_C_slot)
  from h1 r1 n1 n2 n3 h2 h3 r2 h4 h5 h6 h7 r3 show ?thesis by blast
qed

text \<open>
  Claim C1 as stated fails for two records that differ in \<open>average\<close>: the diff is
  empty and the patched record is the old one.
\<close>

theorem diff_patch_average_counterexample:
  "apply_patch (json_members (compute_struct_diff zero_struct (zero_struct\<lparr> average := 1 \<rparr>)))
     zero_struct \<noteq> zero_struct\<lparr> average := 1 \<rparr>"
proof -
  have "compute_struct_diff zero_struct (zero_struct\<lparr> average := 1 \<rparr>) = JObject []"
    by (rule diff_average_only)
  moreover have "zero_struct \<noteq> zero_struct\<lparr> average := 1 \<rparr>"
    by (simp add: zero_struct_def)
  ultimately show ?thesis
    by (simp add: json_members_def apply_patch_Nil)
qed

end
